theory Spec2Isabelle
  imports Complex_Main "HOL-Library.AList"
begin

section \<open>JSON values and script outcomes\<close>

text \<open>
  Every script of the curation pipeline works on the value that \<^verbatim>\<open>JSON.parse\<close> yields for a
  file and writes \<^verbatim>\<open>JSON.stringify(value, null, 2) + "\n"\<close> back. The model keeps, for each
  file, the decoded value instead of its text: the text that is written is a function of the
  value, and decoding it again gives the value back. A JavaScript object is an association
  list in property order: assigning an existing property keeps its place
  (\<^const>\<open>AList.update\<close>), assigning a new one appends it, \<^verbatim>\<open>delete\<close> removes it
  (\<^const>\<open>AList.delete\<close>), and a read is \<^const>\<open>map_of\<close>, with \<open>None\<close> for
  \<^verbatim>\<open>undefined\<close>. Numbers inside entries are never computed on; they are kept as integers.
\<close>

datatype json =
    JNull
  | JBool bool
  | JNum int
  | JStr string
  | JArr "json list"
  | JObj "(string \<times> json) list"

type_synonym props = "(string \<times> json) list"

text \<open>What a file holds: text that \<^verbatim>\<open>JSON.parse\<close> rejects, or the value it yields.\<close>

datatype content = Unparseable | Parsed json

text \<open>A directory is the list of its entries (name and content) in listing order.\<close>

type_synonym dir = "(string \<times> content) list"

text \<open>
  How a script ends: \<^verbatim>\<open>process.exit(n)\<close> (or falling off the end, which is status 0), or an
  exception nobody catches, on which the runtime ends the process with status 1.
\<close>

datatype outcome = Exit nat | Uncaught

fun exit_status :: "outcome \<Rightarrow> nat" where
  "exit_status (Exit n) = n"
| "exit_status Uncaught = 1"

text \<open>\<^verbatim>\<open>Object.prototype.hasOwnProperty.call(obj, key)\<close>\<close>

definition hasOwnProperty :: "props \<Rightarrow> string \<Rightarrow> bool" where
  "hasOwnProperty obj key = (map_of obj key \<noteq> None)"

text \<open>\<^verbatim>\<open>Array.isArray(x)\<close> on the result of a property read.\<close>

fun isArray :: "json option \<Rightarrow> bool" where
  "isArray (Some (JArr xs)) = True"
| "isArray _ = False"

text \<open>The idiom \<^verbatim>\<open>Array.isArray(x) ? x : []\<close>.\<close>

fun arrayOrEmpty :: "json option \<Rightarrow> json list" where
  "arrayOrEmpty (Some (JArr xs)) = xs"
| "arrayOrEmpty _ = []"

definition ensureArray :: "props \<Rightarrow> string \<Rightarrow> props" where
  "ensureArray obj key =
     (if \<not> hasOwnProperty obj key \<or> \<not> isArray (map_of obj key)
      then AList.update key (JArr []) obj else obj)"

text \<open>
  The scripts read and assign named properties of the decoded top-level value. On an object
  these are its properties. An array has none of the names the scripts use, accepts the
  assignments, and \<^verbatim>\<open>JSON.stringify\<close> writes its elements only. On \<^verbatim>\<open>null\<close> the first access
  raises a TypeError, and so does the first assignment on a boolean, number or string (the
  scripts are modules, hence strict code).
\<close>

fun own_props :: "json \<Rightarrow> props option" where
  "own_props (JObj ps) = Some ps"
| "own_props (JArr xs) = Some []"
| "own_props _ = None"

fun stringify_with :: "json \<Rightarrow> props \<Rightarrow> json" where
  "stringify_with (JObj _) ps = JObj ps"
| "stringify_with v ps = v"

text \<open>\<^verbatim>\<open>s.endsWith(suf)\<close>, and \<^verbatim>\<open>path.basename(p, ".json")\<close> for a name \<open>f\<close> that ends in
  \<^verbatim>\<open>.json\<close>. The migration passes the path \<^verbatim>\<open>path.join(dataDir, f)\<close>: the suffix is cut off,
  but a file named exactly \<^verbatim>\<open>.json\<close> keeps its whole name (\<open>basename_json\<close>).
  \<^verbatim>\<open>findNextMissing\<close> passes the bare entry name \<open>f\<close>: the suffix is cut off, and the name
  \<^verbatim>\<open>.json\<close>, equal to the suffix, gives the empty string (\<open>basename_entry\<close>).\<close>

definition endsWith :: "string \<Rightarrow> string \<Rightarrow> bool" where
  "endsWith s suf = (length suf \<le> length s \<and> drop (length s - length suf) s = suf)"

definition basename_json :: "string \<Rightarrow> string" where
  "basename_json f = (if f = ''.json'' then f else take (length f - 5) f)"

definition basename_entry :: "string \<Rightarrow> string" where
  "basename_entry f = take (length f - 5) f"

section \<open>Schema migration\<close>

definition OLD_KEYS :: "string list" where
  "OLD_KEYS = [''continental_congress'', ''battles'', ''letters_and_deeds'']"

definition NEW_KEYS :: "string list" where
  "NEW_KEYS = [''soldiers_day'', ''men_of_command'',
               ''continental_congress_committees'', ''voices_beyond_the_line'']"

text \<open>\<^verbatim>\<open>!x\<close> and \<^verbatim>\<open>typeof x === "string"\<close> on the result of a property read.\<close>

fun falsy :: "json option \<Rightarrow> bool" where
  "falsy None = True"
| "falsy (Some JNull) = True"
| "falsy (Some (JBool b)) = (\<not> b)"
| "falsy (Some (JNum n)) = (n = 0)"
| "falsy (Some (JStr s)) = (s = [])"
| "falsy (Some (JArr xs)) = False"
| "falsy (Some (JObj ps)) = False"

fun typeof_string :: "json option \<Rightarrow> bool" where
  "typeof_string (Some (JStr s)) = True"
| "typeof_string _ = False"

text \<open>\<^verbatim>\<open>if (!json.date || typeof json.date !== "string") json.date = base;\<close>\<close>

definition ensure_date :: "string \<Rightarrow> props \<Rightarrow> props" where
  "ensure_date base json =
     (if falsy (map_of json ''date'') \<or> \<not> typeof_string (map_of json ''date'')
      then AList.update ''date'' (JStr base) json else json)"

definition alreadyNew :: "props \<Rightarrow> bool" where
  "alreadyNew json =
     (list_all (\<lambda>k. hasOwnProperty json k) NEW_KEYS \<and>
      list_all (\<lambda>k. \<not> hasOwnProperty json k) OLD_KEYS)"

text \<open>The body of \<^verbatim>\<open>if (!alreadyNew) { ... }\<close>: four assignments, each guarded by
  \<^verbatim>\<open>if (!Array.isArray(json.key))\<close>, then the loop that deletes the old keys.\<close>

definition assign_unless_array :: "string \<Rightarrow> json \<Rightarrow> props \<Rightarrow> props" where
  "assign_unless_array key v json =
     (if \<not> isArray (map_of json key) then AList.update key v json else json)"

definition set_new_keys :: "props \<Rightarrow> props" where
  "set_new_keys json =
     (let oldLetters = arrayOrEmpty (map_of json ''letters_and_deeds'');
          oldBattles = arrayOrEmpty (map_of json ''battles'');
          oldCongress = arrayOrEmpty (map_of json ''continental_congress'')
      in assign_unless_array ''voices_beyond_the_line'' (JArr [])
           (assign_unless_array ''continental_congress_committees'' (JArr oldCongress)
             (assign_unless_array ''men_of_command'' (JArr [])
               (assign_unless_array ''soldiers_day'' (JArr (oldLetters @ oldBattles)) json))))"

definition remove_old_keys :: "props \<Rightarrow> props" where
  "remove_old_keys json =
     foldl (\<lambda>j k. if hasOwnProperty j k then AList.delete k j else j) json OLD_KEYS"

text \<open>\<^verbatim>\<open>migrateOne\<close> between \<^verbatim>\<open>JSON.parse\<close> and \<^verbatim>\<open>JSON.stringify\<close>: the new properties and
  the flag \<^verbatim>\<open>changed\<close>.\<close>

definition migrateOne_object :: "string \<Rightarrow> props \<Rightarrow> props \<times> bool" where
  "migrateOne_object base json0 =
     (let json1 = ensure_date base json0;
          already = alreadyNew json1;
          json2 = (if \<not> already then remove_old_keys (set_new_keys json1) else json1)
      in (foldl ensureArray json2 NEW_KEYS, \<not> already))"

text \<open>The result of \<^verbatim>\<open>migrateOne\<close>: \<^verbatim>\<open>{ ok: false, reason: "invalid_json" }\<close> or
  \<^verbatim>\<open>{ ok: true, changed }\<close>.\<close>

datatype migrate_result = InvalidJson | Migrated bool

text \<open>
  \<^verbatim>\<open>migrateOne(filePath)\<close>, as a function of the base name and of what the file holds: the
  file's new content and the result, or \<open>None\<close> when a TypeError escapes (the file is then
  not written).
\<close>

definition migrateOne :: "string \<Rightarrow> content \<Rightarrow> (content \<times> migrate_result) option" where
  "migrateOne base raw =
     (case raw of
        Unparseable \<Rightarrow> Some (Unparseable, InvalidJson)
      | Parsed v \<Rightarrow>
          (case own_props v of
             None \<Rightarrow> None
           | Some json0 \<Rightarrow>
               Some (Parsed (stringify_with v (fst (migrateOne_object base json0))),
                     Migrated (snd (migrateOne_object base json0)))))"

record tally =
  ok_count :: nat
  changed_count :: nat
  bad_count :: nat

definition count_result :: "migrate_result \<Rightarrow> tally \<Rightarrow> tally" where
  "count_result res t =
     (case res of
        InvalidJson \<Rightarrow> t\<lparr>bad_count := bad_count t + 1\<rparr>
      | Migrated ch \<Rightarrow>
          t\<lparr>ok_count := ok_count t + 1,
            changed_count := changed_count t + (if ch then 1 else 0)\<rparr>)"

text \<open>
  The loop of the migration script over the entries of \<^verbatim>\<open>data/\<close> whose name ends in
  \<^verbatim>\<open>.json\<close>; every other entry is left alone. The tally is \<open>None\<close> when an exception ended
  the run; the entries after that one are then as they were.
\<close>

fun migrate_loop :: "dir \<Rightarrow> tally \<Rightarrow> dir \<times> tally option" where
  "migrate_loop [] t = ([], Some t)"
| "migrate_loop ((f, c) # rest) t =
     (if \<not> endsWith f ''.json''
      then ((f, c) # fst (migrate_loop rest t), snd (migrate_loop rest t))
      else (case migrateOne (basename_json f) c of
              None \<Rightarrow> ((f, c) # rest, None)
            | Some (c', res) \<Rightarrow>
                ((f, c') # fst (migrate_loop rest (count_result res t)),
                 snd (migrate_loop rest (count_result res t)))))"

text \<open>The migration script: \<open>None\<close> is a missing \<^verbatim>\<open>data/\<close> directory.\<close>

definition migrate_main :: "dir option \<Rightarrow> dir option \<times> outcome" where
  "migrate_main d =
     (case d of
        None \<Rightarrow> (None, Exit 1)
      | Some entries \<Rightarrow>
          (case migrate_loop entries \<lparr>ok_count = 0, changed_count = 0, bad_count = 0\<rparr> of
             (entries', None) \<Rightarrow> (Some entries', Uncaught)
           | (entries', Some t) \<Rightarrow>
               (Some entries', if bad_count t > 0 then Exit 2 else Exit 0)))"

section \<open>Numbers and strings of the scripts\<close>

text \<open>
  A JavaScript number: not-a-number, an infinity, or a finite value. The scripts compare
  numbers, subtract one and index arrays; on the finite values that can pass these tests the
  rational model agrees with the floating-point one. \<^verbatim>\<open>Number(s)\<close> itself, the built-in
  reading of a string as a number, is a parameter \<open>num\<close> of the functions that call it.
\<close>

datatype jsnum = NaN | PosInf | NegInf | Fin rat

fun js_lt :: "jsnum \<Rightarrow> jsnum \<Rightarrow> bool" where
  "js_lt (Fin a) (Fin b) = (a < b)"
| "js_lt NegInf (Fin b) = True"
| "js_lt NegInf PosInf = True"
| "js_lt (Fin a) PosInf = True"
| "js_lt _ _ = False"

definition js_ge :: "jsnum \<Rightarrow> jsnum \<Rightarrow> bool" where
  "js_ge x y = (x \<noteq> NaN \<and> y \<noteq> NaN \<and> \<not> js_lt x y)"

definition js_gt :: "jsnum \<Rightarrow> jsnum \<Rightarrow> bool" where
  "js_gt x y = js_lt y x"

definition js_eq :: "jsnum \<Rightarrow> jsnum \<Rightarrow> bool" where
  "js_eq x y = (x \<noteq> NaN \<and> x = y)"

fun isFinite :: "jsnum \<Rightarrow> bool" where
  "isFinite (Fin q) = True"
| "isFinite _ = False"

text \<open>\<^verbatim>\<open>n - 1\<close>\<close>

fun minus_one :: "jsnum \<Rightarrow> jsnum" where
  "minus_one (Fin q) = Fin (q - 1)"
| "minus_one x = x"

text \<open>
  \<^verbatim>\<open>arr[i]\<close> for a number \<open>i\<close>: the element when \<open>i\<close> is an index of the array, and
  \<^verbatim>\<open>undefined\<close> otherwise, which \<^verbatim>\<open>JSON.stringify\<close> writes as \<^verbatim>\<open>null\<close> inside an array; the
  model keeps \<^const>\<open>JNull\<close> for it.
\<close>

fun array_read :: "json list \<Rightarrow> jsnum \<Rightarrow> json" where
  "array_read xs (Fin q) =
     (if of_int \<lfloor>q\<rfloor> = q \<and> 0 \<le> q \<and> nat \<lfloor>q\<rfloor> < length xs then xs ! nat \<lfloor>q\<rfloor> else JNull)"
| "array_read xs x = JNull"

text \<open>\<^verbatim>\<open>s.split(c)\<close> for a one-character separator, and \<^verbatim>\<open>s.trim()\<close> (characters are bytes
  here, so the white space is the ASCII one).\<close>

fun split_on :: "char \<Rightarrow> string \<Rightarrow> string list" where
  "split_on c [] = [[]]"
| "split_on c (x # xs) =
     (if x = c then [] # split_on c xs
      else (case split_on c xs of [] \<Rightarrow> [[x]] | w # ws \<Rightarrow> (x # w) # ws))"

definition is_space :: "char \<Rightarrow> bool" where
  "is_space c = (c \<in> set [CHR 0x09, CHR 0x0A, CHR 0x0B, CHR 0x0C, CHR 0x0D, CHR '' ''])"

definition trim :: "string \<Rightarrow> string" where
  "trim s = rev (dropWhile is_space (rev (dropWhile is_space s)))"

definition is_digit :: "char \<Rightarrow> bool" where
  "is_digit c = (c \<in> set ''0123456789'')"

text \<open>\<^verbatim>\<open>String(n)\<close> for a natural number, \<^verbatim>\<open>s.padStart(2, "0")\<close>, and \<^verbatim>\<open>pad2\<close>.\<close>

fun String_nat :: "nat \<Rightarrow> string" where
  "String_nat n =
     (if n < 10 then [''0123456789'' ! n]
      else String_nat (n div 10) @ [''0123456789'' ! (n mod 10)])"

definition padStart2 :: "string \<Rightarrow> string" where
  "padStart2 s = replicate (2 - length s) CHR ''0'' @ s"

definition pad2 :: "nat \<Rightarrow> string" where
  "pad2 n = padStart2 (String_nat n)"

text \<open>The value of a string of decimal digits, and \<^verbatim>\<open>Number(s)\<close> on such strings. On
  every other string \<open>decimalNumber\<close> gives not-a-number; it stands for \<^verbatim>\<open>Number\<close> only in
  examples whose tokens are digit strings or plain words.\<close>

definition dec_value :: "string \<Rightarrow> nat" where
  "dec_value s = foldl (\<lambda>a c. 10 * a + (of_char c - 48)) 0 s"

definition decimalNumber :: "string \<Rightarrow> jsnum" where
  "decimalNumber s = (if list_all is_digit s then Fin (of_nat (dec_value s)) else NaN)"

text \<open>\<^verbatim>\<open>Number(s)\<close> on the tokens of an example that has the token \<^verbatim>\<open>2.5\<close> next to digit
  strings and plain words.\<close>

definition Number_example :: "string \<Rightarrow> jsnum" where
  "Number_example s = (if s = ''2.5'' then Fin (5 / 2) else decimalNumber s)"

text \<open>The test \<^verbatim>\<open>/^\d{4}-\d{2}-\d{2}$/.test(s)\<close>.\<close>

fun is_iso_date :: "string \<Rightarrow> bool" where
  "is_iso_date [y1, y2, y3, y4, s1, m1, m2, s2, d1, d2] =
     (is_digit y1 \<and> is_digit y2 \<and> is_digit y3 \<and> is_digit y4 \<and> s1 = CHR ''-'' \<and>
      is_digit m1 \<and> is_digit m2 \<and> s2 = CHR ''-'' \<and> is_digit d1 \<and> is_digit d2)"
| "is_iso_date _ = False"

section \<open>Project calendar\<close>

definition PROJECT_START :: string where
  "PROJECT_START = ''1775-07-04''"

definition PROJECT_END :: string where
  "PROJECT_END = ''1776-07-04''"

text \<open>\<^verbatim>\<open>todayMappedIso\<close> of \<^verbatim>\<open>src/lib/calendar.ts\<close> as a function of the month
  (\<^verbatim>\<open>now.getMonth() + 1\<close>) and the day of the month (\<^verbatim>\<open>now.getDate()\<close>) of the wall clock.\<close>

definition todayMappedIso :: "nat \<Rightarrow> nat \<Rightarrow> string" where
  "todayMappedIso m d =
     (let afterJul4 = (m > 7 \<or> (m = 7 \<and> d \<ge> 4));
          year = (if afterJul4 then 1775 else 1776)
      in String_nat year @ ''-'' @ pad2 m @ ''-'' @ pad2 d)"

text \<open>\<^verbatim>\<open>publishIsoTodayMapped\<close> of the seeding and status scripts, as a function of the two
  strings that \<^verbatim>\<open>nyMonthDay\<close> returns (month and day, formatted with two digits).\<close>

definition publishIsoTodayMapped :: "(string \<Rightarrow> jsnum) \<Rightarrow> string \<Rightarrow> string \<Rightarrow> string" where
  "publishIsoTodayMapped num m d =
     (let month = num m;
          day = num d;
          afterJul4 = (js_gt month (Fin 7) \<or> (js_eq month (Fin 7) \<and> js_ge day (Fin 4)));
          year = (if afterJul4 then 1775 else 1776)
      in String_nat year @ ''-'' @ m @ ''-'' @ d)"

text \<open>The wording of the specification: the label year is the earlier one when (month,
  day) is on or after the cutover (7, 4) in the order of the calendar, the later one before
  it; the address is the label year, the month and the day, the last two zero-padded to two
  digits.\<close>

definition on_or_after :: "nat \<times> nat \<Rightarrow> nat \<times> nat \<Rightarrow> bool" where
  "on_or_after md cutover =
     (fst cutover < fst md \<or> (fst md = fst cutover \<and> snd cutover \<le> snd md))"

definition mapWallClockToAddress_spec :: "nat \<Rightarrow> nat \<Rightarrow> string" where
  "mapWallClockToAddress_spec m d =
     (if on_or_after (m, d) (7, 4) then ''1775'' else ''1776'') @ ''-'' @ pad2 m @ ''-'' @ pad2 d"

text \<open>
  Dates of the scaffold script. A \<^verbatim>\<open>Date\<close> at midnight UTC is the number of its day, counted
  from 1970-01-01. \<open>days_from_civil\<close> is the day number of the first of a month of the
  proleptic Gregorian calendar plus the day offset (what \<^verbatim>\<open>Date.UTC(y, m - 1, d)\<close> computes:
  months beyond the year carry into the year, days beyond the month into the following days),
  and \<open>civil_from_days\<close> reads year, month and day of the month back.
\<close>

definition days_from_civil :: "int \<Rightarrow> int \<Rightarrow> int \<Rightarrow> int" where
  "days_from_civil y m d =
     (let ym = y + (m - 1) div 12;
          mn = (m - 1) mod 12 + 1;
          y' = (if mn \<le> 2 then ym - 1 else ym);
          era = y' div 400;
          yoe = y' - era * 400;
          doy = (153 * (if mn > 2 then mn - 3 else mn + 9) + 2) div 5;
          doe = yoe * 365 + yoe div 4 - yoe div 100 + doy
      in era * 146097 + doe - 719468 + (d - 1))"

definition civil_from_days :: "int \<Rightarrow> int \<times> int \<times> int" where
  "civil_from_days z =
     (let z' = z + 719468;
          era = z' div 146097;
          doe = z' - era * 146097;
          yoe = (doe - doe div 1460 + doe div 36524 - doe div 146096) div 365;
          doy = doe - (365 * yoe + yoe div 4 - yoe div 100);
          mp = (5 * doy + 2) div 153;
          d = doy - (153 * mp + 2) div 5 + 1;
          m = (if mp < 10 then mp + 3 else mp - 9);
          y = yoe + era * 400
      in (if m \<le> 2 then y + 1 else y, m, d))"

text \<open>\<^verbatim>\<open>parseIso\<close> on a string of the shape \<^verbatim>\<open>YYYY-MM-DD\<close> (the two constants of the script
  are), and \<^verbatim>\<open>toIso\<close> for a date whose year is not negative.\<close>

definition parseIso :: "string \<Rightarrow> int option" where
  "parseIso isoDate =
     (if is_iso_date isoDate
      then (case map dec_value (split_on (CHR ''-'') isoDate) of
              [y, m, d] \<Rightarrow>
                Some (days_from_civil (if y \<le> 99 then 1900 + int y else int y) (int m) (int d))
            | _ \<Rightarrow> None)
      else None)"

definition toIso :: "int \<Rightarrow> string" where
  "toIso dt =
     (case civil_from_days dt of
        (y, m, d) \<Rightarrow> String_nat (nat y) @ ''-'' @ pad2 (nat m) @ ''-'' @ pad2 (nat d))"

section \<open>The record store and the intake store\<close>

text \<open>The two directories the scripts work on; \<open>None\<close> is a directory that does not
  exist. Every entry is taken to be a readable file.\<close>

record world =
  data_dir :: "dir option"
  intake_dir :: "dir option"

definition file_in :: "dir option \<Rightarrow> string \<Rightarrow> content option" where
  "file_in d name = (case d of None \<Rightarrow> None | Some entries \<Rightarrow> map_of entries name)"

definition dataPath :: "string \<Rightarrow> string" where
  "dataPath isoDate = isoDate @ ''.json''"

definition intakePath :: "string \<Rightarrow> string" where
  "intakePath isoDate = isoDate @ ''.rag.json''"

definition CAPS :: "(string \<times> nat) list" where
  "CAPS = [(''soldiers_day'', 3), (''men_of_command'', 2),
           (''continental_congress_committees'', 2), (''voices_beyond_the_line'', 2)]"

section \<open>Promotion\<close>

text \<open>\<^verbatim>\<open>parseCsvIndices(s)\<close>, where \<open>None\<close> is \<^verbatim>\<open>null\<close>.\<close>

definition parseCsvIndices :: "(string \<Rightarrow> jsnum) \<Rightarrow> string option \<Rightarrow> jsnum list" where
  "parseCsvIndices num s =
     (case s of
        None \<Rightarrow> []
      | Some str \<Rightarrow>
          if str = [] then []
          else filter (\<lambda>n. isFinite n \<and> js_ge n (Fin 1))
                 (map num (filter (\<lambda>x. x \<noteq> []) (map trim (split_on (CHR '','') str)))))"

text \<open>The loop of \<^verbatim>\<open>applyPromotion\<close> that fills \<^verbatim>\<open>picked\<close>.\<close>

fun pick :: "json list \<Rightarrow> jsnum list \<Rightarrow> json list" where
  "pick cands [] = []"
| "pick cands (n # ns) =
     (if js_lt (minus_one n) (Fin 0) \<or> js_ge (minus_one n) (Fin (of_nat (length cands)))
      then pick cands ns
      else array_read cands (minus_one n) # pick cands ns)"

text \<open>\<^verbatim>\<open>applyPromotion({ data, intake, key, indices, overwrite })\<close>: the two objects after the
  call and the returned \<^verbatim>\<open>{ pickedCount, finalCount }\<close>. For a key without a cap
  \<^verbatim>\<open>slice(0, undefined)\<close> keeps the whole array.\<close>

definition applyPromotion ::
  "props \<Rightarrow> props \<Rightarrow> string \<Rightarrow> jsnum list \<Rightarrow> bool \<Rightarrow> props \<times> props \<times> nat \<times> nat" where
  "applyPromotion data intake key indices overwrite =
     (let data1 = ensureArray data key;
          intake1 = ensureArray intake key;
          picked = pick (arrayOrEmpty (map_of intake1 key)) indices;
          base = (if overwrite then [] else arrayOrEmpty (map_of data1 key));
          merged = base @ picked;
          final = (case map_of CAPS key of None \<Rightarrow> merged | Some cap \<Rightarrow> take cap merged)
      in (AList.update key (JArr final) data1, intake1, length picked, length final))"

text \<open>The default \<^verbatim>\<open>sort()\<close> of an array of strings: ascending by character codes.\<close>

fun str_lt :: "string \<Rightarrow> string \<Rightarrow> bool" where
  "str_lt [] [] = False"
| "str_lt [] (y # ys) = True"
| "str_lt (x # xs) [] = False"
| "str_lt (x # xs) (y # ys) =
     ((of_char x :: nat) < of_char y \<or> (x = y \<and> str_lt xs ys))"

fun insert_sorted :: "string \<Rightarrow> string list \<Rightarrow> string list" where
  "insert_sorted s [] = [s]"
| "insert_sorted s (t # ts) = (if str_lt t s then t # insert_sorted s ts else s # t # ts)"

definition js_sort :: "string list \<Rightarrow> string list" where
  "js_sort xs = foldr insert_sorted xs []"

text \<open>What the \<^verbatim>\<open>try\<close> block of \<^verbatim>\<open>findNextMissing\<close> computes for \<^verbatim>\<open>soldiers\<close>; \<open>None\<close>
  when it throws (no such file, text that does not parse, or the value \<^verbatim>\<open>null\<close>).\<close>

fun soldiers_if_readable :: "content option \<Rightarrow> json list option" where
  "soldiers_if_readable None = None"
| "soldiers_if_readable (Some Unparseable) = None"
| "soldiers_if_readable (Some (Parsed JNull)) = None"
| "soldiers_if_readable (Some (Parsed (JObj ps))) = Some (arrayOrEmpty (map_of ps ''soldiers_day''))"
| "soldiers_if_readable (Some (Parsed v)) = Some []"

fun next_missing_in :: "world \<Rightarrow> string list \<Rightarrow> string option" where
  "next_missing_in w [] = None"
| "next_missing_in w (f # fs) =
     (if file_in (intake_dir w) (intakePath (basename_entry f)) = None then next_missing_in w fs
      else (case soldiers_if_readable (file_in (data_dir w) (dataPath (basename_entry f))) of
              Some [] \<Rightarrow> Some (basename_entry f)
            | _ \<Rightarrow> next_missing_in w fs))"

text \<open>\<^verbatim>\<open>findNextMissing()\<close>: \<open>None\<close> when \<^verbatim>\<open>readdirSync\<close> throws for want of the directory.\<close>

definition findNextMissing :: "world \<Rightarrow> string option option" where
  "findNextMissing w =
     (case data_dir w of
        None \<Rightarrow> None
      | Some entries \<Rightarrow>
          Some (next_missing_in w
                  (js_sort (filter (\<lambda>f. endsWith f ''.json'') (map fst entries)))))"

text \<open>\<^verbatim>\<open>hasFlag\<close> and \<^verbatim>\<open>getFlagValue\<close> of \<^verbatim>\<open>main\<close>.\<close>

definition hasFlag :: "string list \<Rightarrow> string \<Rightarrow> bool" where
  "hasFlag args f = (f \<in> set args)"

fun getFlagValue :: "string list \<Rightarrow> string \<Rightarrow> string option" where
  "getFlagValue [] f = None"
| "getFlagValue (a # as) f =
     (if a = f then (case as of [] \<Rightarrow> None | v # _ \<Rightarrow> Some v) else getFlagValue as f)"

text \<open>The date \<^verbatim>\<open>main\<close> works on: the first argument, or the result of
  \<^verbatim>\<open>findNextMissing\<close> under \<^verbatim>\<open>--next-missing\<close>. The test \<^verbatim>\<open>if (!next)\<close> holds for \<^verbatim>\<open>null\<close>
  and for the empty string, and the script then ends with status 0.\<close>

definition choose_date :: "string list \<Rightarrow> world \<Rightarrow> outcome + string" where
  "choose_date args w =
     (if hasFlag args ''--next-missing''
      then (case findNextMissing w of
              None \<Rightarrow> Inl Uncaught
            | Some None \<Rightarrow> Inl (Exit 0)
            | Some (Some next) \<Rightarrow> if next = [] then Inl (Exit 0) else Inr next)
      else Inr (hd args))"

text \<open>The two existence checks, the two reads and the loop that normalises the required
  keys: the decoded data file, and the intake and data objects after normalisation.\<close>

definition load_pair :: "string \<Rightarrow> world \<Rightarrow> outcome + (json \<times> props \<times> props)" where
  "load_pair isoDate w =
     (case file_in (intake_dir w) (intakePath isoDate) of
        None \<Rightarrow> Inl (Exit 2)
      | Some ic \<Rightarrow>
          (case file_in (data_dir w) (dataPath isoDate) of
             None \<Rightarrow> Inl (Exit 2)
           | Some dc \<Rightarrow>
               (case (ic, dc) of
                  (Parsed iv, Parsed dv) \<Rightarrow>
                    (case (own_props iv, own_props dv) of
                       (Some ip, Some dp) \<Rightarrow>
                         Inr (dv, foldl ensureArray ip (map fst CAPS),
                              foldl ensureArray dp (map fst CAPS))
                     | _ \<Rightarrow> Inl Uncaught)
                | _ \<Rightarrow> Inl Uncaught)))"

text \<open>The four index lists, each with the key it selects for, in the order \<^verbatim>\<open>main\<close>
  applies them.\<close>

definition selections :: "(string \<Rightarrow> jsnum) \<Rightarrow> string list \<Rightarrow> (string \<times> jsnum list) list" where
  "selections num args =
     [(''soldiers_day'', parseCsvIndices num (getFlagValue args ''--soldiers'')),
      (''men_of_command'', parseCsvIndices num (getFlagValue args ''--command'')),
      (''continental_congress_committees'', parseCsvIndices num (getFlagValue args ''--congress'')),
      (''voices_beyond_the_line'', parseCsvIndices num (getFlagValue args ''--voices''))]"

definition anySelection :: "(string \<times> jsnum list) list \<Rightarrow> bool" where
  "anySelection sels = list_ex (\<lambda>sel. snd sel \<noteq> []) sels"

text \<open>One statement \<^verbatim>\<open>if (idx.length) report.push([key, applyPromotion(...)])\<close>, and the four
  of them in a row.\<close>

definition promote_selected ::
  "bool \<Rightarrow> props \<times> props \<times> (string \<times> nat \<times> nat) list \<Rightarrow> string \<times> jsnum list
     \<Rightarrow> props \<times> props \<times> (string \<times> nat \<times> nat) list" where
  "promote_selected overwrite st sel =
     (case st of (data, intake, report) \<Rightarrow>
        if snd sel = [] then st
        else (case applyPromotion data intake (fst sel) (snd sel) overwrite of
                (data', intake', r) \<Rightarrow> (data', intake', report @ [(fst sel, r)])))"

definition merge_all ::
  "bool \<Rightarrow> props \<Rightarrow> props \<Rightarrow> (string \<times> jsnum list) list
     \<Rightarrow> props \<times> props \<times> (string \<times> nat \<times> nat) list" where
  "merge_all overwrite data intake sels = foldl (promote_selected overwrite) (data, intake, []) sels"

text \<open>
  \<^verbatim>\<open>main\<close> up to the merge: nothing is written so far. The result is the way the script
  ends early, or the date, the decoded data file, the merged data object and the report.
\<close>

definition promote_plan ::
  "(string \<Rightarrow> jsnum) \<Rightarrow> string list \<Rightarrow> world
     \<Rightarrow> outcome + (string \<times> json \<times> props \<times> (string \<times> nat \<times> nat) list)" where
  "promote_plan num args w =
     (if args = [] then Inl (Exit 2)
      else (case choose_date args w of
              Inl out \<Rightarrow> Inl out
            | Inr isoDate \<Rightarrow>
                if \<not> is_iso_date isoDate then Inl (Exit 2)
                else (case load_pair isoDate w of
                        Inl out \<Rightarrow> Inl out
                      | Inr (dv, intake, data) \<Rightarrow>
                          if hasFlag args ''--list'' then Inl (Exit 0)
                          else if \<not> anySelection (selections num args) then Inl (Exit 2)
                          else (case merge_all (hasFlag args ''--overwrite'') data intake
                                       (selections num args) of
                                  (data', intake', report) \<Rightarrow>
                                    Inr (isoDate, dv, data', report)))))"

text \<open>The rest of \<^verbatim>\<open>main\<close>: the gate on the primary category (whose value is an array at
  this point), the dry run, and the write.\<close>

definition promote_main :: "(string \<Rightarrow> jsnum) \<Rightarrow> string list \<Rightarrow> world \<Rightarrow> world \<times> outcome" where
  "promote_main num args w =
     (case promote_plan num args w of
        Inl out \<Rightarrow> (w, out)
      | Inr (isoDate, dv, data, report) \<Rightarrow>
          if length (arrayOrEmpty (map_of data ''soldiers_day'')) = 0 then (w, Exit 1)
          else if hasFlag args ''--dry-run'' then (w, Exit 0)
          else (w\<lparr>data_dir :=
                    map_option
                      (AList.update (dataPath isoDate)
                         (Parsed (stringify_with dv (AList.update ''date'' (JStr isoDate) data))))
                      (data_dir w)\<rparr>,
                Exit 0))"

text \<open>The wording of the specification for one promoted category: positions outside
  \<open>[1, length]\<close> are dropped, the others are resolved in the order given, the base is
  prepended, and the first \<open>cap\<close> elements are kept.\<close>

definition resolve_positions :: "json list \<Rightarrow> int list \<Rightarrow> json list" where
  "resolve_positions cands ps =
     map (\<lambda>p. cands ! nat (p - 1)) (filter (\<lambda>p. 1 \<le> p \<and> p \<le> int (length cands)) ps)"

definition promote_spec :: "nat \<Rightarrow> bool \<Rightarrow> json list \<Rightarrow> json list \<Rightarrow> int list \<Rightarrow> json list" where
  "promote_spec cap overwrite current cands ps =
     take cap ((if overwrite then [] else current) @ resolve_positions cands ps)"

text \<open>Every category of a record is within its cap; for a file, of the object it holds.\<close>

definition within_caps :: "props \<Rightarrow> bool" where
  "within_caps json =
     list_all (\<lambda>kc. length (arrayOrEmpty (map_of json (fst kc))) \<le> snd kc) CAPS"

fun content_within_caps :: "content \<Rightarrow> bool" where
  "content_within_caps (Parsed (JObj ps)) = within_caps ps"
| "content_within_caps c = True"

definition store_within_caps :: "world \<Rightarrow> bool" where
  "store_within_caps w =
     (case data_dir w of
        None \<Rightarrow> True
      | Some entries \<Rightarrow> list_all (\<lambda>e. content_within_caps (snd e)) entries)"


section \<open>Audit\<close>

record audit_counts =
  parseFailures :: nat
  missingKeys :: nat
  missingSoldiers :: nat
  overCaps :: nat

text \<open>The checks on one decoded record that is not \<^verbatim>\<open>null\<close>: a value that is not an
  object has none of the required keys.\<close>

fun audit_props :: "json \<Rightarrow> props" where
  "audit_props (JObj ps) = ps"
| "audit_props v = []"

definition audit_record :: "props \<Rightarrow> audit_counts \<Rightarrow> audit_counts" where
  "audit_record json c =
     c\<lparr>missingKeys := missingKeys c +
          length (filter (\<lambda>key. \<not> hasOwnProperty json key \<or> \<not> isArray (map_of json key))
                    (map fst CAPS)),
       missingSoldiers := missingSoldiers c +
          (if length (arrayOrEmpty (map_of json ''soldiers_day'')) = 0 then 1 else 0),
       overCaps := overCaps c +
          length (filter (\<lambda>kc. length (arrayOrEmpty (map_of json (fst kc))) > snd kc) CAPS)\<rparr>"

text \<open>
  The loop over the entries whose name ends in \<^verbatim>\<open>.json\<close>. The counts are sums over the
  files, so the order of the visit (the script sorts the names) does not change them; \<open>None\<close>
  is the TypeError that \<^verbatim>\<open>hasOwnProperty.call(null, key)\<close> raises, which ends the script.
\<close>

fun audit_loop :: "dir \<Rightarrow> audit_counts \<Rightarrow> audit_counts option" where
  "audit_loop [] c = Some c"
| "audit_loop ((f, content) # rest) c =
     (if \<not> endsWith f ''.json'' then audit_loop rest c
      else (case content of
              Unparseable \<Rightarrow> audit_loop rest (c\<lparr>parseFailures := parseFailures c + 1\<rparr>)
            | Parsed v \<Rightarrow>
                (case v of
                   JNull \<Rightarrow> None
                 | _ \<Rightarrow> audit_loop rest (audit_record (audit_props v) c))))"

definition violations :: "audit_counts \<Rightarrow> nat" where
  "violations c = parseFailures c + missingKeys c + missingSoldiers c + overCaps c"

text \<open>The audit script: the directory after the run, the counts it prints (if it gets
  there) and how it ends.\<close>

definition audit_main :: "dir option \<Rightarrow> dir option \<times> audit_counts option \<times> outcome" where
  "audit_main d =
     (case d of
        None \<Rightarrow> (d, None, Exit 2)
      | Some entries \<Rightarrow>
          (case audit_loop entries
                  \<lparr>parseFailures = 0, missingKeys = 0, missingSoldiers = 0, overCaps = 0\<rparr> of
             None \<Rightarrow> (d, None, Uncaught)
           | Some c \<Rightarrow> (d, Some c, Exit (if violations c \<noteq> 0 then 1 else 0))))"

text \<open>The four conditions of the specification on one file of the store: it parses, the
  four category fields are present and are sequences, the primary category has an entry, and
  no category is longer than its cap.\<close>

definition record_passes :: "content \<Rightarrow> bool" where
  "record_passes c =
     (case c of
        Unparseable \<Rightarrow> False
      | Parsed v \<Rightarrow>
          (case v of
             JObj ps \<Rightarrow>
               list_all (\<lambda>kc. isArray (map_of ps (fst kc))) CAPS \<and>
               1 \<le> length (arrayOrEmpty (map_of ps ''soldiers_day'')) \<and>
               list_all (\<lambda>kc. length (arrayOrEmpty (map_of ps (fst kc))) \<le> snd kc) CAPS
           | _ \<Rightarrow> False))"

section \<open>Scaffold\<close>

definition emptyDay :: "string \<Rightarrow> json" where
  "emptyDay isoDate =
     JObj [(''date'', JStr isoDate), (''continental_congress'', JArr []),
           (''battles'', JArr []), (''letters_and_deeds'', JArr [])]"

text \<open>The loop \<^verbatim>\<open>for (let dt = start; dt <= end; dt = addDays(dt, 1))\<close> over the days it
  visits: the directory, and the numbers of files created and skipped. A new file is a new
  entry of the directory.\<close>

fun scaffold_loop :: "int list \<Rightarrow> dir \<Rightarrow> nat \<Rightarrow> nat \<Rightarrow> dir \<times> nat \<times> nat" where
  "scaffold_loop [] entries created skipped = (entries, created, skipped)"
| "scaffold_loop (dt # dts) entries created skipped =
     (if map_of entries (toIso dt @ ''.json'') \<noteq> None
      then scaffold_loop dts entries created (skipped + 1)
      else scaffold_loop dts
             (entries @ [(toIso dt @ ''.json'', Parsed (emptyDay (toIso dt)))])
             (created + 1) skipped)"

definition project_days :: "int list" where
  "project_days =
     (case (parseIso PROJECT_START, parseIso PROJECT_END) of
        (Some s, Some e) \<Rightarrow> [s..e]
      | _ \<Rightarrow> [])"

text \<open>The scaffold script; \<^verbatim>\<open>mkdirSync(dataDir, { recursive: true })\<close> creates a missing
  directory.\<close>

definition scaffold_main :: "dir option \<Rightarrow> dir option \<times> nat \<times> nat" where
  "scaffold_main d =
     (case scaffold_loop project_days (case d of None \<Rightarrow> [] | Some entries \<Rightarrow> entries) 0 0 of
        (entries', created, skipped) \<Rightarrow> (Some entries', created, skipped))"

section \<open>Shapes of records and example records\<close>

text \<open>The shape a migrated record has: the four current keys hold arrays, no legacy key is
  left, and the date needs no repair.\<close>

definition migrated_shape :: "string \<Rightarrow> props \<Rightarrow> bool" where
  "migrated_shape base j \<longleftrightarrow>
     (\<forall>k\<in>set NEW_KEYS. isArray (map_of j k)) \<and>
     (\<forall>k\<in>set OLD_KEYS. map_of j k = None) \<and>
     ensure_date base j = j"

text \<open>The legacy shape of the specification: the three legacy categories, and none of the
  current ones.\<close>

definition legacy_shape :: "props \<Rightarrow> bool" where
  "legacy_shape json =
     (list_all (\<lambda>k. isArray (map_of json k)) OLD_KEYS \<and>
      list_all (\<lambda>k. \<not> hasOwnProperty json k) NEW_KEYS)"

text \<open>A legacy record, a record that already has its primary category next to a legacy
  one, a record with one secondary category and a legacy one, and a record that has its
  primary category next to the legacy battles and the legacy congress entries.\<close>

definition legacy_example :: props where
  "legacy_example =
     [(''date'', JStr ''1775-07-04''),
      (''continental_congress'', JArr [JStr ''c1'']),
      (''battles'', JArr [JStr ''b1'']),
      (''letters_and_deeds'', JArr [JStr ''l1'', JStr ''l2''])]"

definition partly_migrated_example :: props where
  "partly_migrated_example =
     [(''date'', JStr ''1775-07-04''),
      (''soldiers_day'', JArr [JStr ''s1'']),
      (''battles'', JArr [JStr ''b1''])]"

definition command_only_example :: props where
  "command_only_example =
     [(''men_of_command'', JArr [JStr ''m1'']), (''battles'', JArr [JStr ''b1''])]"

definition half_migrated_example :: props where
  "half_migrated_example =
     [(''date'', JStr ''1775-07-04''),
      (''soldiers_day'', JArr [JStr ''s1'']),
      (''battles'', JArr [JStr ''b1'']),
      (''continental_congress'', JArr [JStr ''c1''])]"

section \<open>Notions used to state the properties\<close>

text \<open>The tokens of a selection flag: the pieces between commas, trimmed, the empty ones
  left out. Positions given as integers, as numbers of the script.\<close>

definition csv_tokens :: "string option \<Rightarrow> string list" where
  "csv_tokens s =
     (case s of None \<Rightarrow> [] | Some str \<Rightarrow> filter (\<lambda>x. x \<noteq> []) (map trim (split_on (CHR '','') str)))"

definition int_positions :: "int list \<Rightarrow> jsnum list" where
  "int_positions ps = map (\<lambda>p. Fin (of_int p)) ps"


text \<open>The value \<^verbatim>\<open>applyPromotion\<close> assigns to \<^verbatim>\<open>data[key]\<close>, in terms of the two objects it
  is called with.\<close>

definition capped :: "string \<Rightarrow> json list \<Rightarrow> json list" where
  "capped key xs = (case map_of CAPS key of None \<Rightarrow> xs | Some cap \<Rightarrow> take cap xs)"

definition promoted_value :: "bool \<Rightarrow> props \<Rightarrow> props \<Rightarrow> string \<Rightarrow> jsnum list \<Rightarrow> json list" where
  "promoted_value overwrite data intake key idx =
     capped key ((if overwrite then [] else arrayOrEmpty (map_of data key)) @
                 pick (arrayOrEmpty (map_of intake key)) idx)"

text \<open>A run of the promotion script after another, on the store the one before left.\<close>

definition promote_runs :: "(string \<Rightarrow> jsnum) \<Rightarrow> string list list \<Rightarrow> world \<Rightarrow> world" where
  "promote_runs num runs w = foldl (\<lambda>w' args. fst (promote_main num args w')) w runs"

text \<open>The files the audit reads, and what each adds to the four counts.\<close>

definition json_files :: "dir \<Rightarrow> content list" where
  "json_files entries = map snd (filter (\<lambda>e. endsWith (fst e) ''.json'') entries)"

fun parse_failure :: "content \<Rightarrow> nat" where
  "parse_failure Unparseable = 1"
| "parse_failure (Parsed v) = 0"

fun missing_keys :: "content \<Rightarrow> nat" where
  "missing_keys Unparseable = 0"
| "missing_keys (Parsed v) =
     length (filter (\<lambda>kc. \<not> isArray (map_of (audit_props v) (fst kc))) CAPS)"

fun empty_primary :: "content \<Rightarrow> nat" where
  "empty_primary Unparseable = 0"
| "empty_primary (Parsed v) =
     (if arrayOrEmpty (map_of (audit_props v) ''soldiers_day'') = [] then 1 else 0)"

fun over_caps :: "content \<Rightarrow> nat" where
  "over_caps Unparseable = 0"
| "over_caps (Parsed v) =
     length (filter (\<lambda>kc. snd kc < length (arrayOrEmpty (map_of (audit_props v) (fst kc)))) CAPS)"

text \<open>An intake pool with two primary candidates; an empty record; a legacy record with
  three congress entries, the record migration makes of it (its congress category is over the
  cap), and that record after the first primary candidate was promoted; a record with one
  primary entry; a record whose only primary entry is \<^verbatim>\<open>null\<close>; a store with one record and
  its pool; a directory for the audit.\<close>

definition example_intake :: json where
  "example_intake =
     JObj [(''date'', JStr ''1775-07-04''),
           (''soldiers_day'', JArr [JStr ''cand1'', JStr ''cand2'']),
           (''men_of_command'', JArr [JStr ''cmd1'']),
           (''continental_congress_committees'', JArr []),
           (''voices_beyond_the_line'', JArr [])]"

definition empty_record :: json where
  "empty_record =
     JObj [(''date'', JStr ''1775-07-04''), (''soldiers_day'', JArr []),
           (''men_of_command'', JArr []), (''continental_congress_committees'', JArr []),
           (''voices_beyond_the_line'', JArr [])]"

definition legacy_congress_record :: json where
  "legacy_congress_record =
     JObj [(''date'', JStr ''1775-07-04''),
           (''continental_congress'', JArr [JStr ''c1'', JStr ''c2'', JStr ''c3'']),
           (''battles'', JArr []), (''letters_and_deeds'', JArr [])]"

definition overfull_record :: json where
  "overfull_record =
     JObj [(''date'', JStr ''1775-07-04''), (''soldiers_day'', JArr []),
           (''men_of_command'', JArr []),
           (''continental_congress_committees'', JArr [JStr ''c1'', JStr ''c2'', JStr ''c3'']),
           (''voices_beyond_the_line'', JArr [])]"

definition overfull_promoted :: json where
  "overfull_promoted =
     JObj [(''date'', JStr ''1775-07-04''), (''soldiers_day'', JArr [JStr ''cand1'']),
           (''men_of_command'', JArr []),
           (''continental_congress_committees'', JArr [JStr ''c1'', JStr ''c2'', JStr ''c3'']),
           (''voices_beyond_the_line'', JArr [])]"

definition promoted_record :: json where
  "promoted_record =
     JObj [(''date'', JStr ''1775-07-04''), (''soldiers_day'', JArr [JStr ''cand1'']),
           (''men_of_command'', JArr []), (''continental_congress_committees'', JArr []),
           (''voices_beyond_the_line'', JArr [])]"

definition null_promoted_record :: json where
  "null_promoted_record =
     JObj [(''date'', JStr ''1775-07-04''), (''soldiers_day'', JArr [JNull]),
           (''men_of_command'', JArr []), (''continental_congress_committees'', JArr []),
           (''voices_beyond_the_line'', JArr [])]"

definition example_world :: "json \<Rightarrow> world" where
  "example_world rec =
     \<lparr>data_dir = Some [(''1775-07-04.json'', Parsed rec)],
      intake_dir = Some [(''1775-07-04.rag.json'', Parsed example_intake)]\<rparr>"

definition audit_example :: dir where
  "audit_example =
     [(''1775-07-04.json'', Parsed promoted_record),
      (''1775-07-05.json'', Parsed empty_record),
      (''1775-07-06.json'', Unparseable),
      (''1775-07-07.json'', Parsed overfull_record),
      (''1775-07-08.json'', Parsed (emptyDay ''1775-07-08'')),
      (''notes.txt'', Unparseable)]"

section \<open>Properties of the schema migration\<close>

lemma isArray_iff: "isArray v \<longleftrightarrow> (\<exists>xs. v = Some (JArr xs))"
  by (cases v rule: isArray.cases) auto

lemma ensureArray_id: "isArray (map_of obj k) \<Longrightarrow> ensureArray obj k = obj"
  by (auto simp: ensureArray_def hasOwnProperty_def isArray_iff)

lemma map_of_ensureArray:
  "map_of (ensureArray obj k) k' =
     (if k' = k \<and> \<not> isArray (map_of obj k) then Some (JArr []) else map_of obj k')"
  by (auto simp: ensureArray_def hasOwnProperty_def update_conv' isArray_iff)

lemma map_of_ensure_date_other:
  "k \<noteq> ''date'' \<Longrightarrow> map_of (ensure_date base j) k = map_of j k"
  by (simp add: ensure_date_def update_conv')

lemma ensure_date_fix:
  "map_of j' ''date'' = map_of (ensure_date base j) ''date'' \<Longrightarrow> ensure_date base j' = j'"
  unfolding ensure_date_def
  by (auto simp: update_conv' update_triv split: if_splits)

lemma remove_old_keys_eq:
  "remove_old_keys j =
     AList.delete ''letters_and_deeds'' (AList.delete ''battles'' (AList.delete ''continental_congress'' j))"
proof -
  have del: "\<And>k (x::props). (if hasOwnProperty x k then AList.delete k x else x) = AList.delete k x"
    by (auto simp: hasOwnProperty_def map_of_eq_None_iff)
  show ?thesis
    by (simp add: remove_old_keys_def OLD_KEYS_def del)
qed

lemma map_of_remove_old_keys:
  "map_of (remove_old_keys j) k = (if k \<in> set OLD_KEYS then None else map_of j k)"
  by (simp add: remove_old_keys_eq delete_conv' OLD_KEYS_def)

lemma map_of_assign_unless_array:
  "map_of (assign_unless_array key v j) k =
     (if k = key \<and> \<not> isArray (map_of j key) then Some v else map_of j k)"
  by (simp add: assign_unless_array_def update_conv')

lemma set_new_keys_soldiers:
  "map_of (set_new_keys j) ''soldiers_day'' =
     (if isArray (map_of j ''soldiers_day'') then map_of j ''soldiers_day''
      else Some (JArr (arrayOrEmpty (map_of j ''letters_and_deeds'') @ arrayOrEmpty (map_of j ''battles''))))"
  by (simp add: set_new_keys_def Let_def map_of_assign_unless_array)

lemma set_new_keys_command:
  "map_of (set_new_keys j) ''men_of_command'' =
     (if isArray (map_of j ''men_of_command'') then map_of j ''men_of_command'' else Some (JArr []))"
  by (simp add: set_new_keys_def Let_def map_of_assign_unless_array)

lemma set_new_keys_congress:
  "map_of (set_new_keys j) ''continental_congress_committees'' =
     (if isArray (map_of j ''continental_congress_committees'')
      then map_of j ''continental_congress_committees''
      else Some (JArr (arrayOrEmpty (map_of j ''continental_congress''))))"
  by (simp add: set_new_keys_def Let_def map_of_assign_unless_array)

lemma set_new_keys_voices:
  "map_of (set_new_keys j) ''voices_beyond_the_line'' =
     (if isArray (map_of j ''voices_beyond_the_line'') then map_of j ''voices_beyond_the_line''
      else Some (JArr []))"
  by (simp add: set_new_keys_def Let_def map_of_assign_unless_array)

lemma set_new_keys_other:
  "k \<notin> set NEW_KEYS \<Longrightarrow> map_of (set_new_keys j) k = map_of j k"
  by (simp add: set_new_keys_def Let_def map_of_assign_unless_array NEW_KEYS_def)

lemma map_of_normalize:
  "map_of (foldl ensureArray j NEW_KEYS) k =
     (if k \<in> set NEW_KEYS \<and> \<not> isArray (map_of j k) then Some (JArr []) else map_of j k)"
  by (auto simp add: NEW_KEYS_def map_of_ensureArray)

lemma normalize_id:
  "\<forall>k\<in>set NEW_KEYS. isArray (map_of j k) \<Longrightarrow> foldl ensureArray j NEW_KEYS = j"
  by (simp add: NEW_KEYS_def ensureArray_id)


lemma alreadyNew_iff:
  "alreadyNew j \<longleftrightarrow>
     (\<forall>k\<in>set NEW_KEYS. map_of j k \<noteq> None) \<and> (\<forall>k\<in>set OLD_KEYS. map_of j k = None)"
  by (simp add: alreadyNew_def list_all_iff hasOwnProperty_def)

lemma keys_disjoint: "k \<in> set OLD_KEYS \<Longrightarrow> k \<notin> set NEW_KEYS"
  by (auto simp: OLD_KEYS_def NEW_KEYS_def)

lemma date_not_key: "''date'' \<notin> set NEW_KEYS" "''date'' \<notin> set OLD_KEYS"
  by (simp_all add: OLD_KEYS_def NEW_KEYS_def)

lemma isArray_set_new_keys:
  "k \<in> set NEW_KEYS \<Longrightarrow> isArray (map_of (set_new_keys j) k)"
  by (auto simp: NEW_KEYS_def set_new_keys_soldiers set_new_keys_command
        set_new_keys_congress set_new_keys_voices)

lemma migrateOne_object_shape: "migrated_shape base (fst (migrateOne_object base j))"
proof (cases "alreadyNew (ensure_date base j)")
  case True
  then have out: "fst (migrateOne_object base j) = foldl ensureArray (ensure_date base j) NEW_KEYS"
    by (simp add: migrateOne_object_def Let_def)
  have old: "\<forall>k\<in>set OLD_KEYS. map_of (ensure_date base j) k = None"
    using True by (simp add: alreadyNew_iff)
  have "ensure_date base (foldl ensureArray (ensure_date base j) NEW_KEYS)
          = foldl ensureArray (ensure_date base j) NEW_KEYS"
    by (rule ensure_date_fix) (simp add: map_of_normalize date_not_key)
  then show ?thesis
    unfolding migrated_shape_def out using old
    by (auto simp: map_of_normalize keys_disjoint)
next
  case False
  let ?m = "remove_old_keys (set_new_keys (ensure_date base j))"
  from False have out: "fst (migrateOne_object base j) = foldl ensureArray ?m NEW_KEYS"
    by (simp add: migrateOne_object_def Let_def)
  have "ensure_date base (foldl ensureArray ?m NEW_KEYS) = foldl ensureArray ?m NEW_KEYS"
    by (rule ensure_date_fix)
       (simp add: map_of_normalize map_of_remove_old_keys set_new_keys_other date_not_key)
  then show ?thesis
    unfolding migrated_shape_def out
    by (auto simp: map_of_normalize map_of_remove_old_keys keys_disjoint)
qed

lemma migrateOne_object_fixed:
  assumes "migrated_shape base j"
  shows "migrateOne_object base j = (j, False)"
proof -
  from assms have arr: "\<forall>k\<in>set NEW_KEYS. isArray (map_of j k)"
    and old: "\<forall>k\<in>set OLD_KEYS. map_of j k = None" and d: "ensure_date base j = j"
    by (simp_all add: migrated_shape_def)
  from arr have "\<forall>k\<in>set NEW_KEYS. map_of j k \<noteq> None"
    by (auto simp: isArray_iff)
  with old have "alreadyNew j" by (simp add: alreadyNew_iff)
  then show ?thesis
    by (simp add: migrateOne_object_def Let_def d normalize_id [OF arr])
qed

lemma migrateOne_again:
  "migrateOne base c = Some (c', r) \<Longrightarrow> \<exists>r'. migrateOne base c' = Some (c', r')"
proof (cases c)
  case Unparseable
  assume "migrateOne base c = Some (c', r)"
  with Unparseable show ?thesis by (simp add: migrateOne_def)
next
  case (Parsed v)
  assume m: "migrateOne base c = Some (c', r)"
  show ?thesis
  proof (cases v)
    case (JObj ps)
    with Parsed m have c': "c' = Parsed (JObj (fst (migrateOne_object base ps)))"
      by (auto simp: migrateOne_def)
    show ?thesis
      by (simp add: c' migrateOne_def migrateOne_object_fixed [OF migrateOne_object_shape])
  next
    case (JArr xs)
    with Parsed m have "c' = Parsed (JArr xs)" by (auto simp: migrateOne_def)
    then show ?thesis by (simp add: migrateOne_def)
  qed (use Parsed m in \<open>simp_all add: migrateOne_def\<close>)
qed

lemma migrate_loop_again:
  "fst (migrate_loop (fst (migrate_loop d t)) t') = fst (migrate_loop d t)"
proof (induction d arbitrary: t t')
  case Nil
  show ?case by simp
next
  case (Cons e d)
  obtain f c where e: "e = (f, c)" by (cases e)
  show ?case
  proof (cases "endsWith f ''.json''")
    case False
    then show ?thesis by (simp add: e Cons.IH)
  next
    case True
    show ?thesis
    proof (cases "migrateOne (basename_json f) c")
      case None
      with True show ?thesis by (simp add: e)
    next
      case (Some a)
      obtain c' r where a: "a = (c', r)" by (cases a)
      from migrateOne_again [of "basename_json f" c c' r] Some a
      obtain r' where "migrateOne (basename_json f) c' = Some (c', r')" by auto
      with True Some a show ?thesis by (simp add: e Cons.IH)
    qed
  qed
qed

lemma migrate_main_again: "fst (migrate_main (fst (migrate_main d))) = fst (migrate_main d)"
proof (cases d)
  case None
  then show ?thesis by (simp add: migrate_main_def)
next
  case (Some entries)
  let ?z = "\<lparr>ok_count = 0, changed_count = 0, bad_count = 0\<rparr>"
  have fst_main: "\<And>es. fst (migrate_main (Some es)) = Some (fst (migrate_loop es ?z))"
    by (simp add: migrate_main_def split: prod.splits option.splits)
  show ?thesis
    by (simp add: Some fst_main migrate_loop_again)
qed

lemma new_keys_disj:
  "k \<in> set NEW_KEYS \<Longrightarrow> k = ''soldiers_day'' \<or> k = ''men_of_command''
      \<or> k = ''continental_congress_committees'' \<or> k = ''voices_beyond_the_line''"
  by (simp add: NEW_KEYS_def)

lemma map_of_migrateOne_object_old:
  "k \<in> set OLD_KEYS \<Longrightarrow> map_of (fst (migrateOne_object base j)) k = None"
  using migrateOne_object_shape [of base j] by (simp add: migrated_shape_def)

lemma map_of_migrateOne_object_date:
  "map_of (fst (migrateOne_object base j)) ''date'' =
     (if falsy (map_of j ''date'') \<or> \<not> typeof_string (map_of j ''date'')
      then Some (JStr base) else map_of j ''date'')"
proof -
  have "map_of (fst (migrateOne_object base j)) ''date'' = map_of (ensure_date base j) ''date''"
    by (simp add: migrateOne_object_def Let_def map_of_normalize map_of_remove_old_keys
          set_new_keys_other date_not_key)
  then show ?thesis
    by (simp add: ensure_date_def update_conv')
qed

lemma map_of_migrateOne_object_other:
  assumes "k \<notin> set OLD_KEYS" "k \<notin> set NEW_KEYS" "k \<noteq> ''date''"
  shows "map_of (fst (migrateOne_object base j)) k = map_of j k"
  using assms
  by (simp add: migrateOne_object_def Let_def map_of_normalize map_of_remove_old_keys
        set_new_keys_other map_of_ensure_date_other)

lemma alreadyNew_old_absent:
  assumes "alreadyNew (ensure_date base j)"
  shows "map_of j ''letters_and_deeds'' = None" "map_of j ''battles'' = None"
    "map_of j ''continental_congress'' = None"
proof -
  have "\<And>k. k \<in> set OLD_KEYS \<Longrightarrow> map_of (ensure_date base j) k = map_of j k"
    by (rule map_of_ensure_date_other) (use date_not_key in auto)
  with assms have "\<forall>k\<in>set OLD_KEYS. map_of j k = None"
    by (simp add: alreadyNew_iff)
  then show "map_of j ''letters_and_deeds'' = None" "map_of j ''battles'' = None"
    "map_of j ''continental_congress'' = None"
    by (simp_all add: OLD_KEYS_def)
qed

lemma map_of_migrateOne_object_new:
  assumes k: "k \<in> set NEW_KEYS"
  shows "map_of (fst (migrateOne_object base j)) k =
     (if isArray (map_of j k) then map_of j k
      else if k = ''soldiers_day''
        then Some (JArr (arrayOrEmpty (map_of j ''letters_and_deeds'') @
                         arrayOrEmpty (map_of j ''battles'')))
      else if k = ''continental_congress_committees''
        then Some (JArr (arrayOrEmpty (map_of j ''continental_congress'')))
      else Some (JArr []))"
proof -
  let ?j1 = "ensure_date base j"
  from k have kd: "k \<noteq> ''date''" and ko: "k \<notin> set OLD_KEYS"
    using date_not_key keys_disjoint by auto
  have j1: "\<And>k. k \<noteq> ''date'' \<Longrightarrow> map_of ?j1 k = map_of j k"
    by (rule map_of_ensure_date_other)
  show ?thesis
  proof (cases "alreadyNew ?j1")
    case True
    then have out: "fst (migrateOne_object base j) = foldl ensureArray ?j1 NEW_KEYS"
      by (simp add: migrateOne_object_def Let_def)
    show ?thesis
      unfolding out map_of_normalize
      using k kd by (simp add: j1 alreadyNew_old_absent [OF True])
  next
    case False
    then have out: "fst (migrateOne_object base j) =
        foldl ensureArray (remove_old_keys (set_new_keys ?j1)) NEW_KEYS"
      by (simp add: migrateOne_object_def Let_def)
    have "map_of (fst (migrateOne_object base j)) k = map_of (set_new_keys ?j1) k"
      unfolding out map_of_normalize map_of_remove_old_keys
      using k ko by (simp add: isArray_set_new_keys)
    also have "\<dots> = (if isArray (map_of j k) then map_of j k
      else if k = ''soldiers_day''
        then Some (JArr (arrayOrEmpty (map_of j ''letters_and_deeds'') @
                         arrayOrEmpty (map_of j ''battles'')))
      else if k = ''continental_congress_committees''
        then Some (JArr (arrayOrEmpty (map_of j ''continental_congress'')))
      else Some (JArr []))"
      using new_keys_disj [OF k]
      by (elim disjE)
         (simp_all add: set_new_keys_soldiers set_new_keys_command set_new_keys_congress
            set_new_keys_voices j1)
    finally show ?thesis .
  qed
qed

lemma migrateOne_again_result:
  assumes "migrateOne base c = Some (c', r)"
  shows "\<exists>r'. migrateOne base c' = Some (c', r') \<and> (r' = InvalidJson \<longleftrightarrow> r = InvalidJson)"
proof (cases c)
  case Unparseable
  with assms show ?thesis by (simp add: migrateOne_def)
next
  case (Parsed v)
  show ?thesis
  proof (cases v)
    case (JObj ps)
    with Parsed assms have c': "c' = Parsed (JObj (fst (migrateOne_object base ps)))"
      and r: "r \<noteq> InvalidJson"
      by (auto simp: migrateOne_def)
    show ?thesis
      using r
      by (simp add: c' migrateOne_def migrateOne_object_fixed [OF migrateOne_object_shape])
  next
    case (JArr xs)
    with Parsed assms have "c' = Parsed (JArr xs)" and "r \<noteq> InvalidJson"
      by (auto simp: migrateOne_def)
    then show ?thesis by (simp add: migrateOne_def)
  qed (use Parsed assms in \<open>simp_all add: migrateOne_def\<close>)
qed

lemma bad_count_count_result:
  "bad_count (count_result r t) = bad_count t + (if r = InvalidJson then 1 else 0)"
  by (cases r) (simp_all add: count_result_def)

lemma migrate_loop_again_bad:
  "bad_count t' = bad_count t \<Longrightarrow>
   map_option bad_count (snd (migrate_loop (fst (migrate_loop d t)) t')) =
   map_option bad_count (snd (migrate_loop d t))"
proof (induction d arbitrary: t t')
  case Nil
  then show ?case by simp
next
  case (Cons e d)
  obtain f c where e: "e = (f, c)" by (cases e)
  show ?case
  proof (cases "endsWith f ''.json''")
    case False
    then show ?thesis using Cons.IH [OF Cons.prems] by (simp add: e)
  next
    case True
    show ?thesis
    proof (cases "migrateOne (basename_json f) c")
      case None
      with True show ?thesis by (simp add: e)
    next
      case (Some a)
      obtain c' r where a: "a = (c', r)" by (cases a)
      from migrateOne_again_result [of "basename_json f" c c' r] Some a
      obtain r' where r': "migrateOne (basename_json f) c' = Some (c', r')"
        "r' = InvalidJson \<longleftrightarrow> r = InvalidJson" by auto
      have "bad_count (count_result r' t') = bad_count (count_result r t)"
        using Cons.prems r'(2) by (simp add: bad_count_count_result)
      from Cons.IH [OF this] True Some a r'(1) show ?thesis by (simp add: e)
    qed
  qed
qed

lemma migrate_main_again_outcome:
  "snd (migrate_main (fst (migrate_main d))) = snd (migrate_main d)"
proof (cases d)
  case None
  then show ?thesis by (simp add: migrate_main_def)
next
  case (Some entries)
  let ?z = "\<lparr>ok_count = 0, changed_count = 0, bad_count = 0\<rparr>"
  have fst_main: "\<And>es. fst (migrate_main (Some es)) = Some (fst (migrate_loop es ?z))"
    by (simp add: migrate_main_def split: prod.splits option.splits)
  have snd_main: "\<And>es. snd (migrate_main (Some es)) =
      (case map_option bad_count (snd (migrate_loop es ?z)) of
         None \<Rightarrow> Uncaught | Some b \<Rightarrow> if b > 0 then Exit 2 else Exit 0)"
    by (simp add: migrate_main_def split: prod.splits option.splits)
  show ?thesis
    unfolding Some fst_main snd_main
    by (simp only: migrate_loop_again_bad [OF refl])
qed

text \<open>
  Claim C4. Schema migration is idempotent. Running the migration script on the store it has
  produced changes nothing and ends the same way; on one record, a second migration returns
  the record of the first with \<^verbatim>\<open>changed\<close> false; and a current category that already holds
  an array is never overwritten, whatever else the record holds.
\<close>

theorem migration_idempotent:
  "migrate_main (fst (migrate_main d)) = migrate_main d \<and>
   migrateOne_object base (fst (migrateOne_object base json))
     = (fst (migrateOne_object base json), False) \<and>
   (k \<in> set NEW_KEYS \<and> isArray (map_of json k) \<longrightarrow>
      map_of (fst (migrateOne_object base json)) k = map_of json k)"
proof (intro conjI impI)
  show "migrate_main (fst (migrate_main d)) = migrate_main d"
    by (rule prod_eqI) (simp_all add: migrate_main_again migrate_main_again_outcome)
  show "migrateOne_object base (fst (migrateOne_object base json))
     = (fst (migrateOne_object base json), False)"
    by (rule migrateOne_object_fixed [OF migrateOne_object_shape])
next
  assume "k \<in> set NEW_KEYS \<and> isArray (map_of json k)"
  then show "map_of (fst (migrateOne_object base json)) k = map_of json k"
    by (simp add: map_of_migrateOne_object_new)
qed

text \<open>
  The same on a record that already has its primary category next to a legacy one: the
  primary category is kept.
\<close>

theorem migration_idempotent_witness:
  "''soldiers_day'' \<in> set NEW_KEYS \<and>
   isArray (map_of partly_migrated_example ''soldiers_day'') \<and>
   map_of (fst (migrateOne_object ''1775-07-04'' partly_migrated_example)) ''soldiers_day''
     = Some (JArr [JStr ''s1''])"
proof -
  have h: "''soldiers_day'' \<in> set NEW_KEYS \<and> isArray (map_of partly_migrated_example ''soldiers_day'')"
    by (simp add: NEW_KEYS_def partly_migrated_example_def)
  from migration_idempotent [of None "''1775-07-04''" partly_migrated_example "''soldiers_day''"] h
  have "map_of (fst (migrateOne_object ''1775-07-04'' partly_migrated_example)) ''soldiers_day''
     = map_of partly_migrated_example ''soldiers_day''"
    by blast
  with h show ?thesis by (simp add: partly_migrated_example_def)
qed

lemma legacy_shape_iff:
  "legacy_shape json \<longleftrightarrow>
     (\<forall>k\<in>set OLD_KEYS. isArray (map_of json k)) \<and> (\<forall>k\<in>set NEW_KEYS. map_of json k = None)"
  by (simp add: legacy_shape_def list_all_iff hasOwnProperty_def)

lemma new_key_members:
  "''soldiers_day'' \<in> set NEW_KEYS" "''men_of_command'' \<in> set NEW_KEYS"
  "''continental_congress_committees'' \<in> set NEW_KEYS" "''voices_beyond_the_line'' \<in> set NEW_KEYS"
  by (simp_all add: NEW_KEYS_def)

lemma old_key_members:
  "''continental_congress'' \<in> set OLD_KEYS" "''battles'' \<in> set OLD_KEYS"
  "''letters_and_deeds'' \<in> set OLD_KEYS"
  by (simp_all add: OLD_KEYS_def)

lemma changed_iff: "snd (migrateOne_object base json) = (\<not> alreadyNew (ensure_date base json))"
  by (simp add: migrateOne_object_def Let_def)

text \<open>
  Claim C5. For every legacy-shape record, migration gives the current shape: the primary
  category is the legacy letters and deeds followed by the legacy battles, the congress
  category takes the legacy congress entries, the other two secondary categories are empty,
  the legacy keys are gone, the date is a string (the old one if it was a non-empty string,
  the file's base name otherwise), and the primary category holds nothing but the legacy
  entries: none is invented.
\<close>

theorem migration_of_legacy_record:
  assumes "legacy_shape json"
  shows "map_of (fst (migrateOne_object base json)) ''soldiers_day'' =
           Some (JArr (arrayOrEmpty (map_of json ''letters_and_deeds'') @
                       arrayOrEmpty (map_of json ''battles''))) \<and>
         map_of (fst (migrateOne_object base json)) ''continental_congress_committees'' =
           Some (JArr (arrayOrEmpty (map_of json ''continental_congress''))) \<and>
         map_of (fst (migrateOne_object base json)) ''men_of_command'' = Some (JArr []) \<and>
         map_of (fst (migrateOne_object base json)) ''voices_beyond_the_line'' = Some (JArr []) \<and>
         (\<forall>k\<in>set OLD_KEYS. map_of (fst (migrateOne_object base json)) k = None) \<and>
         map_of (fst (migrateOne_object base json)) ''date'' =
           (if falsy (map_of json ''date'') \<or> \<not> typeof_string (map_of json ''date'')
            then Some (JStr base) else map_of json ''date'') \<and>
         (\<exists>s. map_of (fst (migrateOne_object base json)) ''date'' = Some (JStr s)) \<and>
         snd (migrateOne_object base json) \<and>
         set (arrayOrEmpty (map_of (fst (migrateOne_object base json)) ''soldiers_day'')) =
           set (arrayOrEmpty (map_of json ''letters_and_deeds'')) \<union>
           set (arrayOrEmpty (map_of json ''battles''))"
proof -
  from assms have none: "\<And>k. k \<in> set NEW_KEYS \<Longrightarrow> map_of json k = None"
    by (simp add: legacy_shape_iff)
  have s: "map_of (fst (migrateOne_object base json)) ''soldiers_day'' =
           Some (JArr (arrayOrEmpty (map_of json ''letters_and_deeds'') @
                       arrayOrEmpty (map_of json ''battles'')))"
    by (simp add: map_of_migrateOne_object_new new_key_members none)
  have c: "map_of (fst (migrateOne_object base json)) ''continental_congress_committees'' =
           Some (JArr (arrayOrEmpty (map_of json ''continental_congress'')))"
    by (simp add: map_of_migrateOne_object_new new_key_members none)
  have m: "map_of (fst (migrateOne_object base json)) ''men_of_command'' = Some (JArr [])"
    by (simp add: map_of_migrateOne_object_new new_key_members none)
  have v: "map_of (fst (migrateOne_object base json)) ''voices_beyond_the_line'' = Some (JArr [])"
    by (simp add: map_of_migrateOne_object_new new_key_members none)
  have old: "\<forall>k\<in>set OLD_KEYS. map_of (fst (migrateOne_object base json)) k = None"
    by (simp add: map_of_migrateOne_object_old)
  have d: "map_of (fst (migrateOne_object base json)) ''date'' =
           (if falsy (map_of json ''date'') \<or> \<not> typeof_string (map_of json ''date'')
            then Some (JStr base) else map_of json ''date'')"
    by (rule map_of_migrateOne_object_date)
  have ds: "\<exists>s. map_of (fst (migrateOne_object base json)) ''date'' = Some (JStr s)"
    unfolding d by (cases "map_of json ''date''" rule: typeof_string.cases) simp_all
  have "map_of (ensure_date base json) ''soldiers_day'' = None"
    by (simp add: map_of_ensure_date_other none new_key_members)
  then have "\<not> alreadyNew (ensure_date base json)"
    using new_key_members(1) by (auto simp: alreadyNew_iff)
  then have ch: "snd (migrateOne_object base json)"
    by (simp add: changed_iff)
  have inv: "set (arrayOrEmpty (map_of (fst (migrateOne_object base json)) ''soldiers_day'')) =
           set (arrayOrEmpty (map_of json ''letters_and_deeds'')) \<union>
           set (arrayOrEmpty (map_of json ''battles''))"
    unfolding s by simp
  from s c m v old d ds ch inv show ?thesis by blast
qed

text \<open>
  The legacy example record: two letters and one battle become the primary category, in
  that order.
\<close>

theorem migration_of_legacy_record_witness:
  "legacy_shape legacy_example \<and>
   map_of (fst (migrateOne_object ''1775-07-04'' legacy_example)) ''soldiers_day'' =
     Some (JArr [JStr ''l1'', JStr ''l2'', JStr ''b1'']) \<and>
   map_of (fst (migrateOne_object ''1775-07-04'' legacy_example)) ''continental_congress_committees'' =
     Some (JArr [JStr ''c1''])"
proof -
  have h: "legacy_shape legacy_example"
    by (simp add: legacy_example_def legacy_shape_def OLD_KEYS_def NEW_KEYS_def hasOwnProperty_def)
  from migration_of_legacy_record [OF h, of "''1775-07-04''"]
  have "map_of (fst (migrateOne_object ''1775-07-04'' legacy_example)) ''soldiers_day'' =
           Some (JArr (arrayOrEmpty (map_of legacy_example ''letters_and_deeds'') @
                       arrayOrEmpty (map_of legacy_example ''battles'')))"
    and "map_of (fst (migrateOne_object ''1775-07-04'' legacy_example))
           ''continental_congress_committees'' =
           Some (JArr (arrayOrEmpty (map_of legacy_example ''continental_congress'')))"
    by blast+
  with h show ?thesis by (simp add: legacy_example_def)
qed

text \<open>
  Claim C10 says that a record holding any current category as an array together with legacy
  categories loses the legacy entries. It does not when the array is not the category the
  legacy key feeds: with \<^verbatim>\<open>men_of_command\<close> present and the primary category absent, the
  legacy battles become the primary category.
\<close>

theorem legacy_entries_kept_counterexample:
  "isArray (map_of command_only_example ''men_of_command'') \<and>
   hasOwnProperty command_only_example ''battles'' \<and>
   map_of command_only_example ''battles'' = Some (JArr [JStr ''b1'']) \<and>
   map_of (fst (migrateOne_object ''1775-07-04'' command_only_example)) ''soldiers_day''
     = Some (JArr [JStr ''b1''])"
  by code_simp

lemma map_of_migrateOne_object_cases:
  assumes "\<And>k. k \<notin> set ds \<Longrightarrow> map_of j' k = map_of j k"
    and "set ds \<subseteq> set OLD_KEYS"
    and "\<And>k. k \<in> set NEW_KEYS \<Longrightarrow> \<not> isArray (map_of j k) \<Longrightarrow>
           map_of (fst (migrateOne_object base j')) k = map_of (fst (migrateOne_object base j)) k"
  shows "map_of (fst (migrateOne_object base j')) = map_of (fst (migrateOne_object base j))"
proof
  fix k
  have nd: "''date'' \<notin> set ds" using assms(2) date_not_key(2) by auto
  show "map_of (fst (migrateOne_object base j')) k = map_of (fst (migrateOne_object base j)) k"
  proof (cases "k \<in> set OLD_KEYS")
    case True
    then show ?thesis by (simp add: map_of_migrateOne_object_old)
  next
    case old: False
    then have same: "map_of j' k = map_of j k" using assms(1,2) by auto
    show ?thesis
    proof (cases "k = ''date''")
      case True
      then show ?thesis using assms(1) [OF nd] by (simp add: map_of_migrateOne_object_date)
    next
      case nodate: False
      show ?thesis
      proof (cases "k \<in> set NEW_KEYS")
        case False
        with old nodate show ?thesis by (simp add: map_of_migrateOne_object_other same)
      next
        case True
        show ?thesis
        proof (cases "isArray (map_of j k)")
          case True
          with \<open>k \<in> set NEW_KEYS\<close> show ?thesis
            by (simp add: map_of_migrateOne_object_new same)
        next
          case False
          with True show ?thesis by (rule assms(3))
        qed
      qed
    qed
  qed
qed

text \<open>
  Claim C10, amended. When the category a legacy key feeds is already an array (the primary
  category for the legacy letters and deeds and the legacy battles, the congress category for
  the legacy congress), migration leaves that category as it is and deletes the legacy key;
  the migrated record is the one migration gives for the record without those legacy keys,
  so their entries are dropped. When the fed category is absent or not an array, it becomes
  the sequence of the legacy entries (letters and deeds followed by battles for the primary
  category, the congress entries for the congress category) and the legacy key is deleted,
  whatever else the record holds.
\<close>

theorem legacy_entries_dropped:
  "(isArray (map_of json ''soldiers_day'') \<longrightarrow>
      map_of (fst (migrateOne_object base json)) ''soldiers_day'' = map_of json ''soldiers_day'' \<and>
      map_of (fst (migrateOne_object base json)) ''letters_and_deeds'' = None \<and>
      map_of (fst (migrateOne_object base json)) ''battles'' = None \<and>
      map_of (fst (migrateOne_object base json)) =
        map_of (fst (migrateOne_object base
                       (AList.delete ''letters_and_deeds'' (AList.delete ''battles'' json))))) \<and>
   (isArray (map_of json ''continental_congress_committees'') \<longrightarrow>
      map_of (fst (migrateOne_object base json)) ''continental_congress_committees''
        = map_of json ''continental_congress_committees'' \<and>
      map_of (fst (migrateOne_object base json)) ''continental_congress'' = None \<and>
      map_of (fst (migrateOne_object base json)) =
        map_of (fst (migrateOne_object base (AList.delete ''continental_congress'' json)))) \<and>
   (\<not> isArray (map_of json ''soldiers_day'') \<longrightarrow>
      map_of (fst (migrateOne_object base json)) ''soldiers_day'' =
        Some (JArr (arrayOrEmpty (map_of json ''letters_and_deeds'') @
                    arrayOrEmpty (map_of json ''battles''))) \<and>
      map_of (fst (migrateOne_object base json)) ''letters_and_deeds'' = None \<and>
      map_of (fst (migrateOne_object base json)) ''battles'' = None) \<and>
   (\<not> isArray (map_of json ''continental_congress_committees'') \<longrightarrow>
      map_of (fst (migrateOne_object base json)) ''continental_congress_committees'' =
        Some (JArr (arrayOrEmpty (map_of json ''continental_congress''))) \<and>
      map_of (fst (migrateOne_object base json)) ''continental_congress'' = None)"
proof (intro conjI impI)
  assume a: "isArray (map_of json ''soldiers_day'')"
  show "map_of (fst (migrateOne_object base json)) ''soldiers_day'' = map_of json ''soldiers_day''"
    using a by (simp add: map_of_migrateOne_object_new new_key_members)
  show "map_of (fst (migrateOne_object base json)) ''letters_and_deeds'' = None"
    by (simp add: map_of_migrateOne_object_old old_key_members)
  show "map_of (fst (migrateOne_object base json)) ''battles'' = None"
    by (simp add: map_of_migrateOne_object_old old_key_members)
  let ?j' = "AList.delete ''letters_and_deeds'' (AList.delete ''battles'' json)"
  have "map_of (fst (migrateOne_object base ?j')) = map_of (fst (migrateOne_object base json))"
  proof (rule map_of_migrateOne_object_cases [where ds = "[''letters_and_deeds'', ''battles'']"])
    show "\<And>k. k \<notin> set [''letters_and_deeds'', ''battles''] \<Longrightarrow> map_of ?j' k = map_of json k"
      by (simp add: delete_conv')
    show "set [''letters_and_deeds'', ''battles''] \<subseteq> set OLD_KEYS"
      by (simp add: OLD_KEYS_def)
    fix k assume k: "k \<in> set NEW_KEYS" and na: "\<not> isArray (map_of json k)"
    from na a have ks: "k \<noteq> ''soldiers_day''" by auto
    have "map_of ?j' k = map_of json k"
      using k keys_disjoint [of k] old_key_members by (auto simp: delete_conv')
    moreover have "map_of ?j' ''continental_congress'' = map_of json ''continental_congress''"
      by (simp add: delete_conv')
    ultimately show "map_of (fst (migrateOne_object base ?j')) k
        = map_of (fst (migrateOne_object base json)) k"
      using k ks by (simp add: map_of_migrateOne_object_new)
  qed
  then show "map_of (fst (migrateOne_object base json)) = map_of (fst (migrateOne_object base ?j'))"
    by simp
next
  assume a: "isArray (map_of json ''continental_congress_committees'')"
  show "map_of (fst (migrateOne_object base json)) ''continental_congress_committees''
        = map_of json ''continental_congress_committees''"
    using a by (simp add: map_of_migrateOne_object_new new_key_members)
  show "map_of (fst (migrateOne_object base json)) ''continental_congress'' = None"
    by (simp add: map_of_migrateOne_object_old old_key_members)
  let ?j' = "AList.delete ''continental_congress'' json"
  have "map_of (fst (migrateOne_object base ?j')) = map_of (fst (migrateOne_object base json))"
  proof (rule map_of_migrateOne_object_cases [where ds = "[''continental_congress'']"])
    show "\<And>k. k \<notin> set [''continental_congress''] \<Longrightarrow> map_of ?j' k = map_of json k"
      by (simp add: delete_conv')
    show "set [''continental_congress''] \<subseteq> set OLD_KEYS"
      by (simp add: OLD_KEYS_def)
    fix k assume k: "k \<in> set NEW_KEYS" and na: "\<not> isArray (map_of json k)"
    from na a have ks: "k \<noteq> ''continental_congress_committees''" by auto
    have "map_of ?j' k = map_of json k"
      using k keys_disjoint [of k] old_key_members by (auto simp: delete_conv')
    moreover have "map_of ?j' ''letters_and_deeds'' = map_of json ''letters_and_deeds''"
      "map_of ?j' ''battles'' = map_of json ''battles''"
      by (simp_all add: delete_conv')
    ultimately show "map_of (fst (migrateOne_object base ?j')) k
        = map_of (fst (migrateOne_object base json)) k"
      using k ks by (simp add: map_of_migrateOne_object_new)
  qed
  then show "map_of (fst (migrateOne_object base json))
      = map_of (fst (migrateOne_object base ?j'))"
    by simp
next
  assume a: "\<not> isArray (map_of json ''soldiers_day'')"
  show "map_of (fst (migrateOne_object base json)) ''soldiers_day'' =
        Some (JArr (arrayOrEmpty (map_of json ''letters_and_deeds'') @
                    arrayOrEmpty (map_of json ''battles'')))"
    using a by (simp add: map_of_migrateOne_object_new new_key_members)
  show "map_of (fst (migrateOne_object base json)) ''letters_and_deeds'' = None"
    by (simp add: map_of_migrateOne_object_old old_key_members)
  show "map_of (fst (migrateOne_object base json)) ''battles'' = None"
    by (simp add: map_of_migrateOne_object_old old_key_members)
next
  assume a: "\<not> isArray (map_of json ''continental_congress_committees'')"
  show "map_of (fst (migrateOne_object base json)) ''continental_congress_committees'' =
        Some (JArr (arrayOrEmpty (map_of json ''continental_congress'')))"
    using a by (simp add: map_of_migrateOne_object_new new_key_members)
  show "map_of (fst (migrateOne_object base json)) ''continental_congress'' = None"
    by (simp add: map_of_migrateOne_object_old old_key_members)
qed

text \<open>
  On the record that has its primary category and legacy battles, the primary category
  stays and the battles are gone. On the record that has its primary category, legacy
  battles and legacy congress entries, the primary category stays, the battles are gone, and
  the congress entries become the congress category.
\<close>

theorem legacy_entries_dropped_witness:
  "isArray (map_of partly_migrated_example ''soldiers_day'') \<and>
   map_of partly_migrated_example ''battles'' = Some (JArr [JStr ''b1'']) \<and>
   map_of (fst (migrateOne_object ''1775-07-04'' partly_migrated_example)) ''soldiers_day''
     = Some (JArr [JStr ''s1'']) \<and>
   map_of (fst (migrateOne_object ''1775-07-04'' partly_migrated_example)) ''battles'' = None \<and>
   isArray (map_of half_migrated_example ''soldiers_day'') \<and>
   map_of half_migrated_example ''continental_congress_committees'' = None \<and>
   map_of half_migrated_example ''battles'' = Some (JArr [JStr ''b1'']) \<and>
   map_of half_migrated_example ''continental_congress'' = Some (JArr [JStr ''c1'']) \<and>
   map_of (fst (migrateOne_object ''1775-07-04'' half_migrated_example)) ''soldiers_day''
     = Some (JArr [JStr ''s1'']) \<and>
   map_of (fst (migrateOne_object ''1775-07-04'' half_migrated_example)) ''battles'' = None \<and>
   map_of (fst (migrateOne_object ''1775-07-04'' half_migrated_example))
       ''continental_congress_committees'' = Some (JArr [JStr ''c1'']) \<and>
   map_of (fst (migrateOne_object ''1775-07-04'' half_migrated_example)) ''continental_congress''
     = None"
proof -
  have h: "isArray (map_of partly_migrated_example ''soldiers_day'')"
    by (simp add: partly_migrated_example_def)
  from legacy_entries_dropped [of partly_migrated_example "''1775-07-04''"] h
  have p: "map_of (fst (migrateOne_object ''1775-07-04'' partly_migrated_example)) ''soldiers_day''
          = map_of partly_migrated_example ''soldiers_day''"
    "map_of (fst (migrateOne_object ''1775-07-04'' partly_migrated_example)) ''battles'' = None"
    by blast+
  have h1: "isArray (map_of half_migrated_example ''soldiers_day'')"
    by (simp add: half_migrated_example_def)
  have h2: "\<not> isArray (map_of half_migrated_example ''continental_congress_committees'')"
    by (simp add: half_migrated_example_def)
  from legacy_entries_dropped [of half_migrated_example "''1775-07-04''"] h1 h2
  have q: "map_of (fst (migrateOne_object ''1775-07-04'' half_migrated_example)) ''soldiers_day''
          = map_of half_migrated_example ''soldiers_day''"
    "map_of (fst (migrateOne_object ''1775-07-04'' half_migrated_example)) ''battles'' = None"
    "map_of (fst (migrateOne_object ''1775-07-04'' half_migrated_example))
       ''continental_congress_committees''
          = Some (JArr (arrayOrEmpty (map_of half_migrated_example ''continental_congress'')))"
    "map_of (fst (migrateOne_object ''1775-07-04'' half_migrated_example)) ''continental_congress''
          = None"
    by blast+
  have "map_of partly_migrated_example ''soldiers_day'' = Some (JArr [JStr ''s1''])"
    "map_of partly_migrated_example ''battles'' = Some (JArr [JStr ''b1''])"
    by (simp_all add: partly_migrated_example_def)
  moreover have "map_of half_migrated_example ''soldiers_day'' = Some (JArr [JStr ''s1''])"
    "map_of half_migrated_example ''continental_congress_committees'' = None"
    "map_of half_migrated_example ''battles'' = Some (JArr [JStr ''b1''])"
    "map_of half_migrated_example ''continental_congress'' = Some (JArr [JStr ''c1''])"
    by (simp_all add: half_migrated_example_def)
  ultimately show ?thesis using h h1 p q by simp
qed

section \<open>Properties of the calendar mapping\<close>

lemma String_nat_1775: "String_nat 1775 = ''1775''" "String_nat 1776 = ''1776''"
  by simp_all

lemma pad2_vals:
  "pad2 7 = ''07''" "pad2 3 = ''03''" "pad2 4 = ''04''" "pad2 12 = ''12''" "pad2 25 = ''25''"
  by code_simp+

lemma todayMappedIso_spec: "todayMappedIso m d = mapWallClockToAddress_spec m d"
  by (auto simp: todayMappedIso_def mapWallClockToAddress_spec_def on_or_after_def Let_def
        String_nat_1775)

lemma publish_spec:
  assumes "num (pad2 m) = Fin (of_nat m)" "num (pad2 d) = Fin (of_nat d)"
  shows "publishIsoTodayMapped num (pad2 m) (pad2 d) = mapWallClockToAddress_spec m d"
proof -
  have "(js_gt (Fin (of_nat m)) (Fin 7) \<or> (js_eq (Fin (of_nat m)) (Fin 7) \<and> js_ge (Fin (of_nat d)) (Fin 4)))
      = on_or_after (m, d) (7, 4)"
    by (auto simp: js_gt_def js_eq_def js_ge_def on_or_after_def)
  then show ?thesis
    by (simp add: publishIsoTodayMapped_def mapWallClockToAddress_spec_def Let_def assms
          String_nat_1775)
qed

text \<open>
  Claim C6. The address of a wall-clock date depends on its month and day only: it is the
  label year, the month and the day, with label year 1775 on or after the cutover (7, 4) and
  1776 before it. The script variant agrees whenever \<^verbatim>\<open>Number\<close> reads the two formatted
  strings back, and (7, 3), (7, 4) and (12, 25) map to 1776-07-03, 1775-07-04 and
  1775-12-25.
\<close>

theorem wall_clock_mapping:
  "todayMappedIso m d = mapWallClockToAddress_spec m d \<and>
   (num (pad2 m) = Fin (of_nat m) \<and> num (pad2 d) = Fin (of_nat d) \<longrightarrow>
      publishIsoTodayMapped num (pad2 m) (pad2 d) = mapWallClockToAddress_spec m d) \<and>
   todayMappedIso 7 3 = ''1776-07-03'' \<and>
   todayMappedIso 7 4 = ''1775-07-04'' \<and>
   todayMappedIso 12 25 = ''1775-12-25''"
proof (intro conjI impI)
  show "todayMappedIso m d = mapWallClockToAddress_spec m d"
    by (rule todayMappedIso_spec)
  show "todayMappedIso 7 3 = ''1776-07-03''"
    by (simp add: todayMappedIso_def Let_def pad2_vals String_nat_1775 del: String_nat.simps)
  show "todayMappedIso 7 4 = ''1775-07-04''"
    by (simp add: todayMappedIso_def Let_def pad2_vals String_nat_1775 del: String_nat.simps)
  show "todayMappedIso 12 25 = ''1775-12-25''"
    by (simp add: todayMappedIso_def Let_def pad2_vals String_nat_1775 del: String_nat.simps)
next
  assume "num (pad2 m) = Fin (of_nat m) \<and> num (pad2 d) = Fin (of_nat d)"
  then show "publishIsoTodayMapped num (pad2 m) (pad2 d) = mapWallClockToAddress_spec m d"
    by (simp add: publish_spec)
qed

text \<open>
  The script variant on the strings \<^verbatim>\<open>"07"\<close> and \<^verbatim>\<open>"03"\<close>.
\<close>

theorem wall_clock_mapping_witness:
  "decimalNumber (pad2 7) = Fin (of_nat 7) \<and> decimalNumber (pad2 3) = Fin (of_nat 3) \<and>
   publishIsoTodayMapped decimalNumber (pad2 7) (pad2 3) = ''1776-07-03''"
proof -
  have h: "decimalNumber (pad2 7) = Fin (of_nat 7) \<and> decimalNumber (pad2 3) = Fin (of_nat 3)"
    by code_simp
  have s: "mapWallClockToAddress_spec 7 3 = ''1776-07-03''"
    by (simp add: mapWallClockToAddress_spec_def on_or_after_def pad2_vals)
  from wall_clock_mapping [of 7 3 decimalNumber] h
  have "publishIsoTodayMapped decimalNumber (pad2 7) (pad2 3) = mapWallClockToAddress_spec 7 3"
    by blast
  with h s show ?thesis by simp
qed

section \<open>Properties of the promotion\<close>

lemma arrayOrEmpty_ensureArray:
  "arrayOrEmpty (map_of (ensureArray obj k) k') = arrayOrEmpty (map_of obj k')"
  by (cases "map_of obj k" rule: isArray.cases) (auto simp: map_of_ensureArray)

lemma isArray_ensureArray: "isArray (map_of (ensureArray obj k) k)"
  by (simp add: map_of_ensureArray)

lemma arrayOrEmpty_normalise:
  "arrayOrEmpty (map_of (foldl ensureArray obj ks) k) = arrayOrEmpty (map_of obj k)"
  by (induction ks arbitrary: obj) (simp_all add: arrayOrEmpty_ensureArray)

lemma parseCsvIndices_tokens:
  "parseCsvIndices num s = filter (\<lambda>n. isFinite n \<and> js_ge n (Fin 1)) (map num (csv_tokens s))"
proof (cases s)
  case None
  then show ?thesis by (simp add: parseCsvIndices_def csv_tokens_def)
next
  case (Some str)
  then show ?thesis
    by (cases str) (simp_all add: parseCsvIndices_def csv_tokens_def trim_def)
qed

lemma kept_iff: "isFinite n \<and> js_ge n (Fin 1) \<longleftrightarrow> (\<exists>q. n = Fin q \<and> 1 \<le> q)"
  by (cases n) (auto simp: js_ge_def)



lemma parseCsvIndices_elems:
  "n \<in> set (parseCsvIndices num s) \<Longrightarrow> \<exists>q. n = Fin q \<and> 1 \<le> q"
  unfolding parseCsvIndices_tokens using kept_iff by auto

lemma split_on_no_sep: "c \<notin> set s \<Longrightarrow> split_on c s = [s]"
  by (induction s) auto

lemma parseCsvIndices_single:
  assumes "CHR '','' \<notin> set t" "trim t = t" "t \<noteq> []" "num t = Fin q" "1 \<le> q"
  shows "parseCsvIndices num (Some t) = [Fin q]"
  using assms by (simp add: parseCsvIndices_tokens csv_tokens_def split_on_no_sep js_ge_def)

lemma pick_int_positions: "pick cands (int_positions ps) = resolve_positions cands ps"
proof (induction ps)
  case Nil
  show ?case by (simp add: int_positions_def resolve_positions_def)
next
  case (Cons p ps)
  have lt: "js_lt (minus_one (Fin (of_int p))) (Fin 0) \<longleftrightarrow> p < 1"
    by simp
  have "js_ge (minus_one (Fin (of_int p))) (Fin (of_nat (length cands))) \<longleftrightarrow>
      (of_int p :: rat) - 1 \<ge> of_nat (length cands)"
    by (auto simp: js_ge_def)
  also have "\<dots> \<longleftrightarrow> (of_int (p - 1) :: rat) \<ge> of_int (int (length cands))"
    by simp
  also have "\<dots> \<longleftrightarrow> p - 1 \<ge> int (length cands)"
    by (simp only: of_int_le_iff)
  finally have ge: "js_ge (minus_one (Fin (of_int p))) (Fin (of_nat (length cands))) \<longleftrightarrow>
      p > int (length cands)" by auto
  have rd: "1 \<le> p \<Longrightarrow> p \<le> int (length cands) \<Longrightarrow>
      array_read cands (minus_one (Fin (of_int p))) = cands ! nat (p - 1)"
  proof -
    assume a: "1 \<le> p" "p \<le> int (length cands)"
    have e: "(of_int p :: rat) - 1 = of_int (p - 1)" by simp
    from a have n: "nat (p - 1) < length cands" by linarith
    from a have z: "(0::rat) \<le> of_int (p - 1)" by simp
    show ?thesis unfolding minus_one.simps e array_read.simps floor_of_int
      using n z by simp
  qed
  from Cons.IH show ?case
    unfolding int_positions_def resolve_positions_def list.map pick.simps lt ge
    using rd by auto
qed

lemma pick_all_skipped:
  "\<forall>n\<in>set ns. js_lt (minus_one n) (Fin 0) \<or> js_ge (minus_one n) (Fin (of_nat (length cands)))
   \<Longrightarrow> pick cands ns = []"
  by (induction ns) auto

lemma length_pick: "length (pick cands ns) \<le> length ns"
  by (induction ns) auto

lemma map_of_ensureArray_other:
  "k' \<noteq> k \<Longrightarrow> map_of (ensureArray obj k) k' = map_of obj k'"
  by (simp add: map_of_ensureArray)

lemma applyPromotion_data:
  "map_of (fst (applyPromotion data intake key idx ow)) k =
     (if k = key then Some (JArr (promoted_value ow data intake key idx)) else map_of data k)"
  by (simp add: applyPromotion_def Let_def update_conv' map_of_ensureArray_other
        arrayOrEmpty_ensureArray promoted_value_def capped_def split: option.splits)

lemma applyPromotion_intake:
  "arrayOrEmpty (map_of (fst (snd (applyPromotion data intake key idx ow))) k) =
     arrayOrEmpty (map_of intake k)"
  by (simp add: applyPromotion_def Let_def arrayOrEmpty_ensureArray)

lemma applyPromotion_counts:
  "snd (snd (applyPromotion data intake key idx ow)) =
     (length (pick (arrayOrEmpty (map_of intake key)) idx),
      length (promoted_value ow data intake key idx))"
  by (simp add: applyPromotion_def Let_def arrayOrEmpty_ensureArray promoted_value_def capped_def
        split: option.splits)

lemma promoted_value_intake_cong:
  "arrayOrEmpty (map_of intake' key) = arrayOrEmpty (map_of intake key) \<Longrightarrow>
   arrayOrEmpty (map_of data' key) = arrayOrEmpty (map_of data key) \<Longrightarrow>
   promoted_value ow data' intake' key idx = promoted_value ow data intake key idx"
  by (simp add: promoted_value_def)

lemma promote_selected_data:
  "arrayOrEmpty (map_of (fst (promote_selected ow (data, intake, rep) sel)) k) =
     (if k = fst sel \<and> snd sel \<noteq> [] then promoted_value ow data intake (fst sel) (snd sel)
      else arrayOrEmpty (map_of data k))"
  by (cases "applyPromotion data intake (fst sel) (snd sel) ow")
     (use applyPromotion_data [of data intake "fst sel" "snd sel" ow k] in
      \<open>auto simp: promote_selected_def\<close>)

lemma promote_selected_other:
  "k \<noteq> fst sel \<or> snd sel = [] \<Longrightarrow>
   map_of (fst (promote_selected ow (data, intake, rep) sel)) k = map_of data k"
  by (cases "applyPromotion data intake (fst sel) (snd sel) ow")
     (use applyPromotion_data [of data intake "fst sel" "snd sel" ow k] in
      \<open>auto simp: promote_selected_def\<close>)

lemma promote_selected_intake:
  "arrayOrEmpty (map_of (fst (snd (promote_selected ow (data, intake, rep) sel))) k) =
     arrayOrEmpty (map_of intake k)"
  by (cases "applyPromotion data intake (fst sel) (snd sel) ow")
     (use applyPromotion_intake [of data intake "fst sel" "snd sel" ow k] in
      \<open>auto simp: promote_selected_def\<close>)

lemma foldl_promote_selected:
  "distinct (map fst sels) \<Longrightarrow>
   arrayOrEmpty (map_of (fst (foldl (promote_selected ow) (data, intake, rep) sels)) k) =
     (case map_of sels k of
        None \<Rightarrow> arrayOrEmpty (map_of data k)
      | Some idx \<Rightarrow> if idx = [] then arrayOrEmpty (map_of data k)
                    else promoted_value ow data intake k idx)"
proof (induction sels arbitrary: data intake rep)
  case Nil
  show ?case by simp
next
  case (Cons sel sels)
  obtain data1 intake1 rep1 where st: "promote_selected ow (data, intake, rep) sel = (data1, intake1, rep1)"
    by (cases "promote_selected ow (data, intake, rep) sel") auto
  have d1: "\<And>k. arrayOrEmpty (map_of data1 k) =
     (if k = fst sel \<and> snd sel \<noteq> [] then promoted_value ow data intake (fst sel) (snd sel)
      else arrayOrEmpty (map_of data k))"
    using promote_selected_data [of ow data intake rep sel] by (simp add: st)
  have i1: "\<And>k. arrayOrEmpty (map_of intake1 k) = arrayOrEmpty (map_of intake k)"
    using promote_selected_intake [of ow data intake rep sel] by (simp add: st)
  from Cons.prems have dis: "distinct (map fst sels)" and notin: "fst sel \<notin> fst ` set sels"
    by auto
  have ih: "arrayOrEmpty (map_of (fst (foldl (promote_selected ow) (data1, intake1, rep1) sels)) k) =
     (case map_of sels k of
        None \<Rightarrow> arrayOrEmpty (map_of data1 k)
      | Some idx \<Rightarrow> if idx = [] then arrayOrEmpty (map_of data1 k)
                    else promoted_value ow data1 intake1 k idx)"
    by (rule Cons.IH [OF dis])
  have step: "foldl (promote_selected ow) (data, intake, rep) (sel # sels) =
      foldl (promote_selected ow) (data1, intake1, rep1) sels"
    by (simp add: st)
  have look: "map_of (sel # sels) k = (if k = fst sel then Some (snd sel) else map_of sels k)"
    by (cases sel) simp
  show ?case
  proof (cases "k = fst sel")
    case True
    with notin have "map_of sels k = None"
      by (simp add: map_of_eq_None_iff)
    with True show ?thesis
      unfolding step ih look by (simp add: d1)
  next
    case False
    then have pv: "\<And>idx. promoted_value ow data1 intake1 k idx = promoted_value ow data intake k idx"
      by (intro promoted_value_intake_cong) (simp_all add: d1 i1)
    from False show ?thesis
      unfolding step ih look by (simp add: d1 pv split: option.splits)
  qed
qed

lemma merge_all_key:
  "distinct (map fst sels) \<Longrightarrow>
   arrayOrEmpty (map_of (fst (merge_all ow data intake sels)) k) =
     (case map_of sels k of
        None \<Rightarrow> arrayOrEmpty (map_of data k)
      | Some idx \<Rightarrow> if idx = [] then arrayOrEmpty (map_of data k)
                    else promoted_value ow data intake k idx)"
  unfolding merge_all_def by (rule foldl_promote_selected)

lemma distinct_selections: "distinct (map fst (selections num args))"
  by (simp add: selections_def)

lemma map_of_selections_soldiers:
  "map_of (selections num args) ''soldiers_day'' =
     Some (parseCsvIndices num (getFlagValue args ''--soldiers''))"
  by (simp add: selections_def)

lemma length_capped: "map_of CAPS key = Some cap \<Longrightarrow> length (capped key xs) \<le> cap"
  by (simp add: capped_def)

lemma length_promoted_value:
  "map_of CAPS key = Some cap \<Longrightarrow> length (promoted_value ow data intake key idx) \<le> cap"
  by (simp add: promoted_value_def length_capped)

lemma load_pair_Inr:
  assumes "load_pair isoDate w = Inr (dv, intake, data)"
  shows "\<exists>iv ip dp. file_in (intake_dir w) (intakePath isoDate) = Some (Parsed iv) \<and>
           file_in (data_dir w) (dataPath isoDate) = Some (Parsed dv) \<and>
           own_props iv = Some ip \<and> own_props dv = Some dp \<and>
           intake = foldl ensureArray ip (map fst CAPS) \<and>
           data = foldl ensureArray dp (map fst CAPS)"
  using assms unfolding load_pair_def
  by (auto split: option.splits content.splits)

lemma load_pair_Inr_iff:
  "load_pair isoDate w = Inr (dv, intake, data) \<longleftrightarrow>
     (\<exists>iv ip dp. file_in (intake_dir w) (intakePath isoDate) = Some (Parsed iv) \<and>
           file_in (data_dir w) (dataPath isoDate) = Some (Parsed dv) \<and>
           own_props iv = Some ip \<and> own_props dv = Some dp \<and>
           intake = foldl ensureArray ip (map fst CAPS) \<and>
           data = foldl ensureArray dp (map fst CAPS))"
  unfolding load_pair_def
  by (auto split: option.splits content.splits)

lemma promote_plan_Inr:
  assumes "promote_plan num args w = Inr (isoDate, dv, data', report)"
  shows "args \<noteq> [] \<and> choose_date args w = Inr isoDate \<and> is_iso_date isoDate \<and>
         \<not> hasFlag args ''--list'' \<and> anySelection (selections num args) \<and>
         (\<exists>intake data. load_pair isoDate w = Inr (dv, intake, data) \<and>
            data' = fst (merge_all (hasFlag args ''--overwrite'') data intake (selections num args)))"
  using assms unfolding promote_plan_def
  by (auto split: if_splits sum.splits prod.splits)

lemma promote_plan_reached:
  assumes "args \<noteq> []" "choose_date args w = Inr isoDate" "is_iso_date isoDate"
    "load_pair isoDate w = Inr (dv, intake, data)" "\<not> hasFlag args ''--list''"
  shows "promote_plan num args w =
     (if \<not> anySelection (selections num args) then Inl (Exit 2)
      else Inr (isoDate, dv,
                fst (merge_all (hasFlag args ''--overwrite'') data intake (selections num args)),
                snd (snd (merge_all (hasFlag args ''--overwrite'') data intake (selections num args)))))"
  using assms unfolding promote_plan_def
  by (simp split: prod.splits)

lemma promote_main_unchanged:
  "fst (promote_main num args w) \<noteq> w \<Longrightarrow>
     \<exists>isoDate dv data' report. promote_plan num args w = Inr (isoDate, dv, data', report) \<and>
       arrayOrEmpty (map_of data' ''soldiers_day'') \<noteq> [] \<and> \<not> hasFlag args ''--dry-run'' \<and>
       snd (promote_main num args w) = Exit 0"
  unfolding promote_main_def
  by (auto split: sum.splits prod.splits if_splits)

lemma promote_main_gate:
  "promote_plan num args w = Inr (isoDate, dv, data', report) \<Longrightarrow>
   arrayOrEmpty (map_of data' ''soldiers_day'') = [] \<Longrightarrow>
   promote_main num args w = (w, Exit 1)"
  by (simp add: promote_main_def)

text \<open>At the gate, \<^verbatim>\<open>data.soldiers_day\<close> is an array: the normalisation made it one, and the
  merge assigns arrays only. So reading its length there never fails.\<close>

lemma isArray_foldl_ensureArray_keep:
  "isArray (map_of obj k) \<Longrightarrow> isArray (map_of (foldl ensureArray obj ks) k)"
  by (induction ks arbitrary: obj) (simp_all add: map_of_ensureArray)

lemma isArray_foldl_ensureArray:
  "k \<in> set ks \<Longrightarrow> isArray (map_of (foldl ensureArray obj ks) k)"
proof (induction ks arbitrary: obj)
  case Nil
  then show ?case by simp
next
  case (Cons a ks)
  show ?case
  proof (cases "k = a")
    case True
    have "isArray (map_of (ensureArray obj a) a)" by (rule isArray_ensureArray)
    from isArray_foldl_ensureArray_keep [OF this] True show ?thesis by simp
  next
    case False
    with Cons show ?thesis by simp
  qed
qed

lemma isArray_promote_selected:
  "isArray (map_of data k) \<Longrightarrow>
   isArray (map_of (fst (promote_selected ow (data, intake, rep) sel)) k)"
  by (cases "applyPromotion data intake (fst sel) (snd sel) ow")
     (use applyPromotion_data [of data intake "fst sel" "snd sel" ow k] in
      \<open>auto simp: promote_selected_def\<close>)

lemma isArray_merge_all:
  "isArray (map_of data k) \<Longrightarrow> isArray (map_of (fst (merge_all ow data intake sels)) k)"
  unfolding merge_all_def
proof (induction sels arbitrary: data intake rule: rev_induct)
  case Nil
  then show ?case by simp
next
  case (snoc sel sels)
  obtain d i r where st: "foldl (promote_selected ow) (data, intake, []) sels = (d, i, r)"
    by (cases "foldl (promote_selected ow) (data, intake, []) sels") auto
  from snoc.IH [OF snoc.prems, of intake] have "isArray (map_of d k)" by (simp add: st)
  from isArray_promote_selected [OF this] show ?case by (simp add: st)
qed

lemma gate_reads_array:
  assumes "promote_plan num args w = Inr (isoDate, dv, data', report)"
  shows "isArray (map_of data' ''soldiers_day'')"
proof -
  from promote_plan_Inr [OF assms] obtain intake data
    where lp: "load_pair isoDate w = Inr (dv, intake, data)"
      and d: "data' = fst (merge_all (hasFlag args ''--overwrite'') data intake (selections num args))"
    by blast
  from load_pair_Inr [OF lp] obtain dp where "data = foldl ensureArray dp (map fst CAPS)"
    by blast
  moreover have "''soldiers_day'' \<in> set (map fst CAPS)" by (simp add: CAPS_def)
  ultimately have "isArray (map_of data ''soldiers_day'')"
    by (simp only: isArray_foldl_ensureArray)
  then show ?thesis unfolding d by (rule isArray_merge_all)
qed

lemma capped_Nil: "capped key [] = []"
  by (simp add: capped_def split: option.splits)

lemma gate_trips:
  assumes dp: "arrayOrEmpty (map_of dp ''soldiers_day'') = []"
    and out: "\<forall>q. Fin q \<in> set (parseCsvIndices num (getFlagValue args ''--soldiers'')) \<longrightarrow>
                of_nat (length (arrayOrEmpty (map_of ip ''soldiers_day''))) + 1 \<le> q"
  shows "arrayOrEmpty (map_of (fst (merge_all ow (foldl ensureArray dp (map fst CAPS))
            (foldl ensureArray ip (map fst CAPS)) (selections num args))) ''soldiers_day'') = []"
proof -
  let ?idx = "parseCsvIndices num (getFlagValue args ''--soldiers'')"
  let ?cands = "arrayOrEmpty (map_of ip ''soldiers_day'')"
  have "pick ?cands ?idx = []"
  proof (rule pick_all_skipped, rule ballI)
    fix n assume n: "n \<in> set ?idx"
    from parseCsvIndices_elems [OF n] obtain q where q: "n = Fin q" by blast
    with n out have "of_nat (length ?cands) + 1 \<le> q" by blast
    then show "js_lt (minus_one n) (Fin 0) \<or> js_ge (minus_one n) (Fin (of_nat (length ?cands)))"
      by (simp add: q js_ge_def)
  qed
  then have "promoted_value ow (foldl ensureArray dp (map fst CAPS))
      (foldl ensureArray ip (map fst CAPS)) ''soldiers_day'' ?idx = []"
    by (simp add: promoted_value_def arrayOrEmpty_normalise dp capped_Nil)
  then show ?thesis
    by (simp add: merge_all_key [OF distinct_selections] map_of_selections_soldiers
          arrayOrEmpty_normalise dp)
qed

lemma promote_main_selections_cong:
  assumes "selections num args = selections num' args"
  shows "promote_main num args w = promote_main num' args w"
  unfolding promote_main_def promote_plan_def assms by (rule refl)

lemma pick_fraction:
  assumes "of_nat (length cands) < q" "q < of_nat (length cands) + 1" and one: "1 \<le> q"
  shows "pick cands [Fin q] = [JNull]"
proof -
  have fl: "\<lfloor>q\<rfloor> = int (length cands)"
    using assms by (intro floor_unique) simp_all
  have nint: "of_int \<lfloor>q\<rfloor> \<noteq> q"
    using assms(1) by (simp add: fl)
  have rd: "array_read cands (Fin (q - 1)) = JNull"
    using nint by simp
  have "\<not> js_lt (Fin (q - 1)) (Fin 0)" using one by simp
  moreover have "\<not> js_ge (Fin (q - 1)) (Fin (of_nat (length cands)))"
    using assms(2) by (simp add: js_ge_def)
  ultimately show ?thesis
    unfolding pick.simps minus_one.simps using rd by simp
qed

lemma selections_fraction:
  assumes "num ''2.5'' = Fin (5 / 2)"
  shows "selections num [''1775-07-04'', ''--soldiers'', ''2.5''] =
     [(''soldiers_day'', [Fin (5 / 2)]), (''men_of_command'', []),
      (''continental_congress_committees'', []), (''voices_beyond_the_line'', [])]"
proof -
  have "parseCsvIndices num (Some ''2.5'') = [Fin (5 / 2)]"
    by (rule parseCsvIndices_single) (simp_all add: trim_def is_space_def assms)
  then show ?thesis
    by (simp add: selections_def parseCsvIndices_def)
qed

text \<open>
  Claim C1 says that on an empty record, with a primary selection whose positions are all out
  of range, the store is preserved. The loop of \<^verbatim>\<open>applyPromotion\<close> skips a position \<open>n\<close> only
  when \<open>n - 1 < 0\<close> or \<open>n - 1 \<ge> length\<close>, so a position with a fractional part between
  \<open>length\<close> and \<open>length + 1\<close> is not skipped: it reads \<^verbatim>\<open>undefined\<close>, the primary category gets
  one entry, the gate lets the run pass, and the record is written with \<^verbatim>\<open>null\<close> as its
  primary entry. So it is for the token \<^verbatim>\<open>2.5\<close> (which \<^verbatim>\<open>Number\<close> reads as the number 2.5) on
  the empty record with a pool of two primary candidates: the run ends with status 0 and the
  store is not the one before.
\<close>

theorem fractional_position_passes_gate:
  assumes "num ''2.5'' = Fin (5 / 2)"
  shows "arrayOrEmpty (map_of (the (own_props empty_record)) ''soldiers_day'') = [] \<and>
         parseCsvIndices num (getFlagValue [''1775-07-04'', ''--soldiers'', ''2.5''] ''--soldiers'')
           = [Fin (5 / 2)] \<and>
         of_nat (length (arrayOrEmpty (map_of (the (own_props example_intake)) ''soldiers_day'')))
           < (5 / 2 :: rat) \<and>
         promote_main num [''1775-07-04'', ''--soldiers'', ''2.5''] (example_world empty_record)
           = (example_world null_promoted_record, Exit 0) \<and>
         example_world null_promoted_record \<noteq> example_world empty_record \<and>
         file_in (data_dir (example_world null_promoted_record)) (dataPath ''1775-07-04'')
           = Some (Parsed null_promoted_record)"
proof -
  let ?args = "[''1775-07-04'', ''--soldiers'', ''2.5'']"
  have e: "arrayOrEmpty (map_of (the (own_props empty_record)) ''soldiers_day'') = []"
    by code_simp
  have "parseCsvIndices num (Some ''2.5'') = [Fin (5 / 2)]"
    by (rule parseCsvIndices_single) (simp_all add: trim_def is_space_def assms)
  then have p: "parseCsvIndices num (getFlagValue ?args ''--soldiers'') = [Fin (5 / 2)]"
    by simp
  have "length (arrayOrEmpty (map_of (the (own_props example_intake)) ''soldiers_day'')) = 2"
    by code_simp
  then have l: "of_nat (length (arrayOrEmpty (map_of (the (own_props example_intake))
      ''soldiers_day''))) < (5 / 2 :: rat)"
    by simp
  have ne: "Number_example ''2.5'' = Fin (5 / 2)" by (simp add: Number_example_def)
  have "selections num ?args = selections Number_example ?args"
    by (simp only: selections_fraction [of num, OF assms]
          selections_fraction [of Number_example, OF ne])
  then have "promote_main num ?args (example_world empty_record)
      = promote_main Number_example ?args (example_world empty_record)"
    by (rule promote_main_selections_cong)
  also have "\<dots> = (example_world null_promoted_record, Exit 0)"
    by code_simp
  finally have r: "promote_main num ?args (example_world empty_record)
      = (example_world null_promoted_record, Exit 0)" .
  have n: "example_world null_promoted_record \<noteq> example_world empty_record"
    by (simp add: example_world_def null_promoted_record_def empty_record_def)
  have f: "file_in (data_dir (example_world null_promoted_record)) (dataPath ''1775-07-04'')
      = Some (Parsed null_promoted_record)"
    by code_simp
  from e p l r n f show ?thesis by simp
qed

text \<open>
  The same run with a reading of numbers that is given in full.
\<close>

theorem fractional_position_passes_gate_witness:
  "Number_example ''2.5'' = Fin (5 / 2) \<and>
   promote_main Number_example [''1775-07-04'', ''--soldiers'', ''2.5''] (example_world empty_record)
     = (example_world null_promoted_record, Exit 0) \<and>
   example_world null_promoted_record \<noteq> example_world empty_record"
proof -
  have h: "Number_example ''2.5'' = Fin (5 / 2)" by (simp add: Number_example_def)
  from fractional_position_passes_gate [of Number_example, OF h] h show ?thesis by simp
qed

text \<open>
  What holds of the gate. When the primary category is empty after the selected categories
  were merged, the promotion script ends with status 1 and the store is as it was; the store
  changes only after a merge that left the primary category non-empty. On a record whose
  primary category is empty, when every primary position that \<^verbatim>\<open>parseCsvIndices\<close> keeps is at
  least \<open>length + 1\<close> for the candidate list (or it keeps none), the store is unchanged, and
  the run that gets as far as the merge ends with status 1.
\<close>

theorem primary_category_gate:
  "(promote_plan num args w = Inr (isoDate, dv, data', report) \<and>
    arrayOrEmpty (map_of data' ''soldiers_day'') = [] \<longrightarrow>
      promote_main num args w = (w, Exit 1)) \<and>
   (fst (promote_main num args w) \<noteq> w \<longrightarrow>
      (\<exists>d v j r. promote_plan num args w = Inr (d, v, j, r) \<and>
         arrayOrEmpty (map_of j ''soldiers_day'') \<noteq> [])) \<and>
   (choose_date args w = Inr isoDate \<and>
    file_in (data_dir w) (dataPath isoDate) = Some (Parsed dv) \<and> own_props dv = Some dp \<and>
    arrayOrEmpty (map_of dp ''soldiers_day'') = [] \<and>
    file_in (intake_dir w) (intakePath isoDate) = Some (Parsed iv) \<and> own_props iv = Some ip \<and>
    (\<forall>q. Fin q \<in> set (parseCsvIndices num (getFlagValue args ''--soldiers'')) \<longrightarrow>
       of_nat (length (arrayOrEmpty (map_of ip ''soldiers_day''))) + 1 \<le> q) \<longrightarrow>
      fst (promote_main num args w) = w \<and>
      (args \<noteq> [] \<and> is_iso_date isoDate \<and> \<not> hasFlag args ''--list'' \<and>
       anySelection (selections num args) \<longrightarrow> promote_main num args w = (w, Exit 1)))"
proof (intro conjI impI)
  assume "promote_plan num args w = Inr (isoDate, dv, data', report) \<and>
    arrayOrEmpty (map_of data' ''soldiers_day'') = []"
  then show "promote_main num args w = (w, Exit 1)"
    by (simp add: promote_main_gate)
next
  assume "fst (promote_main num args w) \<noteq> w"
  from promote_main_unchanged [OF this]
  show "\<exists>d v j r. promote_plan num args w = Inr (d, v, j, r) \<and>
         arrayOrEmpty (map_of j ''soldiers_day'') \<noteq> []"
    by blast
next
  assume h: "choose_date args w = Inr isoDate \<and>
    file_in (data_dir w) (dataPath isoDate) = Some (Parsed dv) \<and> own_props dv = Some dp \<and>
    arrayOrEmpty (map_of dp ''soldiers_day'') = [] \<and>
    file_in (intake_dir w) (intakePath isoDate) = Some (Parsed iv) \<and> own_props iv = Some ip \<and>
    (\<forall>q. Fin q \<in> set (parseCsvIndices num (getFlagValue args ''--soldiers'')) \<longrightarrow>
       of_nat (length (arrayOrEmpty (map_of ip ''soldiers_day''))) + 1 \<le> q)"
  let ?ow = "hasFlag args ''--overwrite''"
  let ?data = "foldl ensureArray dp (map fst CAPS)"
  let ?intake = "foldl ensureArray ip (map fst CAPS)"
  from h have lp: "load_pair isoDate w = Inr (dv, ?intake, ?data)"
    by (simp add: load_pair_Inr_iff)
  from h have e: "arrayOrEmpty (map_of dp ''soldiers_day'') = []"
    by (elim conjE)
  from h have out: "\<forall>q. Fin q \<in> set (parseCsvIndices num (getFlagValue args ''--soldiers'')) \<longrightarrow>
       of_nat (length (arrayOrEmpty (map_of ip ''soldiers_day''))) + 1 \<le> q"
    by (elim conjE)
  from gate_trips [OF e out] have empty:
    "arrayOrEmpty (map_of (fst (merge_all ?ow ?data ?intake (selections num args))) ''soldiers_day'') = []" .
  show "fst (promote_main num args w) = w"
  proof (rule ccontr)
    assume "fst (promote_main num args w) \<noteq> w"
    from promote_main_unchanged [OF this] obtain d v j r
      where p: "promote_plan num args w = Inr (d, v, j, r)"
        and ne: "arrayOrEmpty (map_of j ''soldiers_day'') \<noteq> []" by blast
    from promote_plan_Inr [OF p] h have d: "d = isoDate" by simp
    from promote_plan_Inr [OF p] lp have "j = fst (merge_all ?ow ?data ?intake (selections num args))"
      by (auto simp: d)
    with ne empty show False by simp
  qed
  assume r: "args \<noteq> [] \<and> is_iso_date isoDate \<and> \<not> hasFlag args ''--list'' \<and>
       anySelection (selections num args)"
  with h lp have "promote_plan num args w =
      Inr (isoDate, dv, fst (merge_all ?ow ?data ?intake (selections num args)),
           snd (snd (merge_all ?ow ?data ?intake (selections num args))))"
    by (simp add: promote_plan_reached)
  from promote_main_gate [OF this empty] show "promote_main num args w = (w, Exit 1)" .
qed

text \<open>
  Position 7 of a pool with two primary candidates, on an empty record, with a selection
  for the second category: status 1, store unchanged.
\<close>

theorem primary_category_gate_witness:
  "choose_date [''1775-07-04'', ''--soldiers'', ''7'', ''--command'', ''1''] (example_world empty_record)
      = Inr ''1775-07-04'' \<and>
   file_in (data_dir (example_world empty_record)) (dataPath ''1775-07-04'') = Some (Parsed empty_record) \<and>
   arrayOrEmpty (map_of (the (own_props empty_record)) ''soldiers_day'') = [] \<and>
   parseCsvIndices decimalNumber
     (getFlagValue [''1775-07-04'', ''--soldiers'', ''7'', ''--command'', ''1''] ''--soldiers'')
      = [Fin 7] \<and>
   length (arrayOrEmpty (map_of (the (own_props example_intake)) ''soldiers_day'')) = 2 \<and>
   promote_main decimalNumber [''1775-07-04'', ''--soldiers'', ''7'', ''--command'', ''1'']
     (example_world empty_record) = (example_world empty_record, Exit 1)"
proof -
  let ?args = "[''1775-07-04'', ''--soldiers'', ''7'', ''--command'', ''1'']"
  let ?w = "example_world empty_record"
  let ?dp = "the (own_props empty_record)"
  let ?ip = "the (own_props example_intake)"
  have h1: "choose_date ?args ?w = Inr ''1775-07-04''" by code_simp
  have h2: "file_in (data_dir ?w) (dataPath ''1775-07-04'') = Some (Parsed empty_record)"
    by code_simp
  have h3: "own_props empty_record = Some ?dp" by code_simp
  have h4: "arrayOrEmpty (map_of ?dp ''soldiers_day'') = []" by code_simp
  have h5: "file_in (intake_dir ?w) (intakePath ''1775-07-04'') = Some (Parsed example_intake)"
    by code_simp
  have h6: "own_props example_intake = Some ?ip" by code_simp
  have h7: "parseCsvIndices decimalNumber (getFlagValue ?args ''--soldiers'') = [Fin 7]"
    by code_simp
  have len: "length (arrayOrEmpty (map_of ?ip ''soldiers_day'')) = 2" by code_simp
  have h8: "\<forall>q. Fin q \<in> set (parseCsvIndices decimalNumber (getFlagValue ?args ''--soldiers'')) \<longrightarrow>
       of_nat (length (arrayOrEmpty (map_of ?ip ''soldiers_day''))) + 1 \<le> q"
    unfolding h7 len by simp
  have h9: "?args \<noteq> [] \<and> is_iso_date ''1775-07-04'' \<and> \<not> hasFlag ?args ''--list'' \<and>
       anySelection (selections decimalNumber ?args)"
    by code_simp
  from primary_category_gate [of decimalNumber ?args ?w "''1775-07-04''" empty_record ?dp "[]"
      ?dp example_intake ?ip] h1 h2 h3 h4 h5 h6 h8 h9
  have "promote_main decimalNumber ?args ?w = (?w, Exit 1)" by blast
  with h1 h2 h4 h7 len show ?thesis by simp
qed

lemma caps_values:
  "map_of CAPS ''soldiers_day'' = Some 3" "map_of CAPS ''men_of_command'' = Some 2"
  "map_of CAPS ''continental_congress_committees'' = Some 2"
  "map_of CAPS ''voices_beyond_the_line'' = Some 2"
  by (simp_all add: CAPS_def)

lemma applyPromotion_spec:
  assumes "map_of CAPS key = Some cap"
  shows "applyPromotion data intake key (int_positions ps) ow =
     (AList.update key
        (JArr (promote_spec cap ow (arrayOrEmpty (map_of data key))
                 (arrayOrEmpty (map_of intake key)) ps))
        (ensureArray data key),
      ensureArray intake key,
      length (resolve_positions (arrayOrEmpty (map_of intake key)) ps),
      length (promote_spec cap ow (arrayOrEmpty (map_of data key))
                 (arrayOrEmpty (map_of intake key)) ps))"
  by (simp add: applyPromotion_def Let_def assms arrayOrEmpty_ensureArray pick_int_positions
        promote_spec_def del: take_append)

text \<open>
  Claim C2 says that a position outside \<open>[1, length]\<close> is dropped. A position \<open>q\<close> with
  \<open>length < q < length + 1\<close> (and \<open>1 \<le> q\<close>) is outside, and \<^verbatim>\<open>applyPromotion\<close> does not drop it:
  the loop pushes \<^verbatim>\<open>undefined\<close> for it, reports one picked entry, and the category becomes
  the first cap elements of the base followed by \<^verbatim>\<open>null\<close>. While the base is shorter than the
  cap, that is not the value of the specification, which for a selection with no position in
  range is the capped base.
\<close>

theorem fractional_position_not_dropped:
  assumes "map_of CAPS key = Some cap"
    and "of_nat (length (arrayOrEmpty (map_of intake key))) < q"
    and "q < of_nat (length (arrayOrEmpty (map_of intake key))) + 1"
    and "1 \<le> q"
  shows "pick (arrayOrEmpty (map_of intake key)) [Fin q] = [JNull] \<and>
         map_of (fst (applyPromotion data intake key [Fin q] ow)) key =
           Some (JArr (take cap ((if ow then [] else arrayOrEmpty (map_of data key)) @ [JNull]))) \<and>
         fst (snd (snd (applyPromotion data intake key [Fin q] ow))) = 1 \<and>
         (length (if ow then [] else arrayOrEmpty (map_of data key)) < cap \<longrightarrow>
            map_of (fst (applyPromotion data intake key [Fin q] ow)) key \<noteq>
              Some (JArr (promote_spec cap ow (arrayOrEmpty (map_of data key))
                            (arrayOrEmpty (map_of intake key)) [])))"
proof -
  let ?base = "if ow then [] else arrayOrEmpty (map_of data key)"
  have p: "pick (arrayOrEmpty (map_of intake key)) [Fin q] = [JNull]"
    using assms(2,3,4) by (rule pick_fraction)
  have "promoted_value ow data intake key [Fin q] = take cap (?base @ [JNull])"
    unfolding promoted_value_def p capped_def assms(1) by simp
  then have v: "map_of (fst (applyPromotion data intake key [Fin q] ow)) key =
      Some (JArr (take cap (?base @ [JNull])))"
    by (simp add: applyPromotion_data)
  have c: "fst (snd (snd (applyPromotion data intake key [Fin q] ow))) = 1"
    unfolding applyPromotion_counts p by simp
  have s: "promote_spec cap ow (arrayOrEmpty (map_of data key))
      (arrayOrEmpty (map_of intake key)) [] = take cap ?base"
    by (simp add: promote_spec_def resolve_positions_def)
  have d: "length ?base < cap \<longrightarrow>
      map_of (fst (applyPromotion data intake key [Fin q] ow)) key \<noteq>
        Some (JArr (promote_spec cap ow (arrayOrEmpty (map_of data key))
                      (arrayOrEmpty (map_of intake key)) []))"
    unfolding v s by simp
  from p v c d show ?thesis by (intro conjI)
qed

text \<open>
  Position 2.5 on the pool with two primary candidates and the empty record: the primary
  category becomes \<^verbatim>\<open>[null]\<close>, where the specification gives the empty sequence.
\<close>

theorem fractional_position_not_dropped_witness:
  "map_of CAPS ''soldiers_day'' = Some 3 \<and>
   length (arrayOrEmpty (map_of (the (own_props example_intake)) ''soldiers_day'')) = 2 \<and>
   arrayOrEmpty (map_of (the (own_props empty_record)) ''soldiers_day'') = [] \<and>
   pick (arrayOrEmpty (map_of (the (own_props example_intake)) ''soldiers_day'')) [Fin (5 / 2)]
     = [JNull] \<and>
   map_of (fst (applyPromotion (the (own_props empty_record)) (the (own_props example_intake))
       ''soldiers_day'' [Fin (5 / 2)] False)) ''soldiers_day'' = Some (JArr [JNull]) \<and>
   promote_spec 3 False (arrayOrEmpty (map_of (the (own_props empty_record)) ''soldiers_day''))
     (arrayOrEmpty (map_of (the (own_props example_intake)) ''soldiers_day'')) [] = []"
proof -
  let ?data = "the (own_props empty_record)"
  let ?intake = "the (own_props example_intake)"
  have h1: "map_of CAPS ''soldiers_day'' = Some 3" by (simp add: CAPS_def)
  have len: "length (arrayOrEmpty (map_of ?intake ''soldiers_day'')) = 2" by code_simp
  have h2: "of_nat (length (arrayOrEmpty (map_of ?intake ''soldiers_day''))) < (5 / 2 :: rat)"
    unfolding len by simp
  have h3: "(5 / 2 :: rat) < of_nat (length (arrayOrEmpty (map_of ?intake ''soldiers_day''))) + 1"
    unfolding len by simp
  have h4: "1 \<le> (5 / 2 :: rat)" by simp
  have e: "arrayOrEmpty (map_of ?data ''soldiers_day'') = []" by code_simp
  have s: "promote_spec 3 False (arrayOrEmpty (map_of ?data ''soldiers_day''))
     (arrayOrEmpty (map_of ?intake ''soldiers_day'')) [] = []"
    by code_simp
  note t = fractional_position_not_dropped [OF h1 h2 h3 h4, where data = ?data and ow = False]
  from t have a: "pick (arrayOrEmpty (map_of ?intake ''soldiers_day'')) [Fin (5 / 2)] = [JNull]"
    by (elim conjE)
  from t have "map_of (fst (applyPromotion ?data ?intake ''soldiers_day'' [Fin (5 / 2)] False))
       ''soldiers_day'' = Some (JArr (take 3 ((if False then [] else
          arrayOrEmpty (map_of ?data ''soldiers_day'')) @ [JNull])))"
    by (elim conjE)
  then have b: "map_of (fst (applyPromotion ?data ?intake ''soldiers_day'' [Fin (5 / 2)] False))
       ''soldiers_day'' = Some (JArr [JNull])"
    unfolding e by simp
  from h1 len e a b s show ?thesis by (intro conjI)
qed

text \<open>
  What holds of \<^verbatim>\<open>applyPromotion\<close>. For each of the four categories, on integer positions it
  assigns the value of the specification: positions outside \<open>[1, length]\<close> dropped, the rest
  resolved in the order given, the base (nothing under overwrite, the record's current
  sequence otherwise) in front, and the first cap elements kept, with cap 3 for the primary
  category and 2 for the others; the counts it returns are those of the resolved and of the
  final sequence.
\<close>

theorem promotion_value:
  "map_of (fst (applyPromotion data intake ''soldiers_day'' (int_positions ps) ow)) ''soldiers_day'' =
     Some (JArr (promote_spec 3 ow (arrayOrEmpty (map_of data ''soldiers_day''))
                   (arrayOrEmpty (map_of intake ''soldiers_day'')) ps)) \<and>
   map_of (fst (applyPromotion data intake ''men_of_command'' (int_positions ps) ow)) ''men_of_command'' =
     Some (JArr (promote_spec 2 ow (arrayOrEmpty (map_of data ''men_of_command''))
                   (arrayOrEmpty (map_of intake ''men_of_command'')) ps)) \<and>
   map_of (fst (applyPromotion data intake ''continental_congress_committees'' (int_positions ps) ow))
       ''continental_congress_committees'' =
     Some (JArr (promote_spec 2 ow (arrayOrEmpty (map_of data ''continental_congress_committees''))
                   (arrayOrEmpty (map_of intake ''continental_congress_committees'')) ps)) \<and>
   map_of (fst (applyPromotion data intake ''voices_beyond_the_line'' (int_positions ps) ow))
       ''voices_beyond_the_line'' =
     Some (JArr (promote_spec 2 ow (arrayOrEmpty (map_of data ''voices_beyond_the_line''))
                   (arrayOrEmpty (map_of intake ''voices_beyond_the_line'')) ps)) \<and>
   snd (snd (applyPromotion data intake ''soldiers_day'' (int_positions ps) ow)) =
     (length (resolve_positions (arrayOrEmpty (map_of intake ''soldiers_day'')) ps),
      length (promote_spec 3 ow (arrayOrEmpty (map_of data ''soldiers_day''))
                   (arrayOrEmpty (map_of intake ''soldiers_day'')) ps))"
  by (simp add: applyPromotion_spec [OF caps_values(1)] applyPromotion_spec [OF caps_values(2)]
        applyPromotion_spec [OF caps_values(3)] applyPromotion_spec [OF caps_values(4)]
        update_conv')

text \<open>
  Positions 2, 9, 0, 1 on the pool with two primary candidates, appended to a primary
  category that holds one entry: 9 and 0 are dropped, and the third of the remaining entries
  is the last one kept.
\<close>

theorem promotion_value_witness:
  "map_of (fst (applyPromotion (the (own_props promoted_record)) (the (own_props example_intake))
       ''soldiers_day'' (int_positions [2, 9, 0, 1]) False)) ''soldiers_day'' =
     Some (JArr [JStr ''cand1'', JStr ''cand2'', JStr ''cand1''])"
proof -
  have "promote_spec 3 False
          (arrayOrEmpty (map_of (the (own_props promoted_record)) ''soldiers_day''))
          (arrayOrEmpty (map_of (the (own_props example_intake)) ''soldiers_day''))
          [2, 9, 0, 1] = [JStr ''cand1'', JStr ''cand2'', JStr ''cand1'']"
    by code_simp
  with promotion_value [of "the (own_props promoted_record)" "the (own_props example_intake)"
      "[2, 9, 0, 1]" False]
  show ?thesis by simp
qed

lemma within_caps_iff:
  "within_caps json \<longleftrightarrow> (\<forall>kc\<in>set CAPS. length (arrayOrEmpty (map_of json (fst kc))) \<le> snd kc)"
  by (simp add: within_caps_def list_all_iff)

lemma caps_distinct: "kc \<in> set CAPS \<Longrightarrow> map_of CAPS (fst kc) = Some (snd kc)"
  by (auto simp: CAPS_def)

lemma caps_not_date: "kc \<in> set CAPS \<Longrightarrow> fst kc \<noteq> ''date''"
  by (auto simp: CAPS_def)

lemma within_caps_merge:
  assumes "within_caps dp"
  shows "within_caps (AList.update ''date'' v
           (fst (merge_all ow (foldl ensureArray dp (map fst CAPS)) intake (selections num args))))"
  unfolding within_caps_iff
proof
  fix kc assume kc: "kc \<in> set CAPS"
  let ?data = "foldl ensureArray dp (map fst CAPS)"
  have "length (arrayOrEmpty (map_of (fst (merge_all ow ?data intake (selections num args))) (fst kc)))
      \<le> snd kc"
    unfolding merge_all_key [OF distinct_selections]
    using assms kc length_promoted_value [OF caps_distinct [OF kc]]
    by (auto simp: within_caps_iff arrayOrEmpty_normalise split: option.splits)
  then show "length (arrayOrEmpty (map_of (AList.update ''date'' v
           (fst (merge_all ow ?data intake (selections num args)))) (fst kc))) \<le> snd kc"
    using caps_not_date [OF kc] by (simp add: update_conv')
qed

lemma list_all_update:
  "list_all (\<lambda>e. P (snd e)) al \<Longrightarrow> P v \<Longrightarrow> list_all (\<lambda>e. P (snd e)) (AList.update k v al)"
  by (induction al) auto

lemma file_in_within_caps:
  "store_within_caps w \<Longrightarrow> file_in (data_dir w) name = Some c \<Longrightarrow> content_within_caps c"
proof -
  assume s: "store_within_caps w" and f: "file_in (data_dir w) name = Some c"
  from f obtain entries where d: "data_dir w = Some entries" and m: "map_of entries name = Some c"
    by (auto simp: file_in_def split: option.splits)
  from map_of_SomeD [OF m] have "(name, c) \<in> set entries" .
  moreover from s d have "\<forall>e\<in>set entries. content_within_caps (snd e)"
    by (simp add: store_within_caps_def list_all_iff)
  ultimately show ?thesis by force
qed

lemma promote_main_within_caps:
  assumes "store_within_caps w"
  shows "store_within_caps (fst (promote_main num args w))"
proof (cases "fst (promote_main num args w) = w")
  case True
  with assms show ?thesis by simp
next
  case False
  from promote_main_unchanged [OF False] obtain d v j r
    where p: "promote_plan num args w = Inr (d, v, j, r)"
      and ne: "arrayOrEmpty (map_of j ''soldiers_day'') \<noteq> []"
      and dry: "\<not> hasFlag args ''--dry-run''" by blast
  from promote_plan_Inr [OF p] obtain intake data
    where lp: "load_pair d w = Inr (v, intake, data)"
      and j: "j = fst (merge_all (hasFlag args ''--overwrite'') data intake (selections num args))"
    by blast
  from load_pair_Inr [OF lp] obtain dp
    where f: "file_in (data_dir w) (dataPath d) = Some (Parsed v)"
      and op: "own_props v = Some dp"
      and data: "data = foldl ensureArray dp (map fst CAPS)" by blast
  have res: "fst (promote_main num args w) =
      w\<lparr>data_dir := map_option (AList.update (dataPath d)
           (Parsed (stringify_with v (AList.update ''date'' (JStr d) j)))) (data_dir w)\<rparr>"
    using p ne dry by (simp add: promote_main_def)
  have new: "content_within_caps (Parsed (stringify_with v (AList.update ''date'' (JStr d) j)))"
  proof (cases v)
    case (JObj ps)
    with op have "dp = ps" by simp
    with file_in_within_caps [OF assms f] JObj have "within_caps dp" by simp
    from within_caps_merge [OF this] show ?thesis
      by (simp add: JObj j data)
  qed simp_all
  show ?thesis
    unfolding res using assms new
    by (auto simp: store_within_caps_def intro: list_all_update split: option.splits)
qed

lemma promote_runs_within_caps:
  "store_within_caps w \<Longrightarrow> store_within_caps (promote_runs num runs w)"
  unfolding promote_runs_def
  by (induction runs arbitrary: w) (simp_all add: promote_main_within_caps)

text \<open>
  Claim C3 says that after any promotion every category of the record is within its cap.
  A category that the promotion does not select is not capped. Migration turns a legacy
  record with three congress entries into a record whose congress category has three entries
  (cap 2); promoting one primary entry in append mode succeeds, and the record that is
  written still has the three.
\<close>

theorem untouched_category_over_cap_counterexample:
  "migrateOne ''1775-07-04'' (Parsed legacy_congress_record)
     = Some (Parsed overfull_record, Migrated True) \<and>
   \<not> hasFlag [''1775-07-04'', ''--soldiers'', ''1''] ''--overwrite'' \<and>
   promote_main decimalNumber [''1775-07-04'', ''--soldiers'', ''1''] (example_world overfull_record)
     = (example_world overfull_promoted, Exit 0) \<and>
   length (arrayOrEmpty (map_of (the (own_props overfull_promoted))
             ''continental_congress_committees'')) = 3 \<and>
   map_of CAPS ''continental_congress_committees'' = Some 2"
  by code_simp

text \<open>
  Claim C3, amended. Every category a promotion touches is within its cap afterwards, in
  either mode; and a store whose records are all within their caps stays so under any
  sequence of runs of the promotion script.
\<close>

theorem caps_after_promotion:
  "(map_of CAPS key = Some cap \<longrightarrow>
      length (arrayOrEmpty (map_of (fst (applyPromotion data intake key idx ow)) key)) \<le> cap \<and>
      snd (snd (snd (applyPromotion data intake key idx ow))) \<le> cap) \<and>
   (store_within_caps w \<longrightarrow> store_within_caps (promote_runs num runs w))"
proof (intro conjI impI)
  assume c: "map_of CAPS key = Some cap"
  show "length (arrayOrEmpty (map_of (fst (applyPromotion data intake key idx ow)) key)) \<le> cap"
    by (simp add: applyPromotion_data length_promoted_value [OF c])
  show "snd (snd (snd (applyPromotion data intake key idx ow))) \<le> cap"
    by (simp add: applyPromotion_counts length_promoted_value [OF c])
next
  assume "store_within_caps w"
  then show "store_within_caps (promote_runs num runs w)"
    by (rule promote_runs_within_caps)
qed

text \<open>
  Two runs on the store with the empty record.
\<close>

theorem caps_after_promotion_witness:
  "map_of CAPS ''soldiers_day'' = Some 3 \<and>
   store_within_caps (example_world empty_record) \<and>
   store_within_caps
     (promote_runs decimalNumber
        [[''1775-07-04'', ''--soldiers'', ''1,2''], [''1775-07-04'', ''--soldiers'', ''2,1,2'']]
        (example_world empty_record)) \<and>
   length (arrayOrEmpty (map_of (fst (applyPromotion [] [] ''soldiers_day'' [] False)) ''soldiers_day''))
     \<le> 3"
proof -
  have h1: "map_of CAPS ''soldiers_day'' = Some 3" by (simp add: CAPS_def)
  have h2: "store_within_caps (example_world empty_record)" by code_simp
  from caps_after_promotion [of "''soldiers_day''" 3 "[]" "[]" "[]" False
      "example_world empty_record" decimalNumber
      "[[''1775-07-04'', ''--soldiers'', ''1,2''], [''1775-07-04'', ''--soldiers'', ''2,1,2'']]"]
    h1 h2
  show ?thesis by blast
qed





section \<open>Properties of the audit\<close>

lemma audit_record_counts:
  "parseFailures (audit_record (audit_props v) c) = parseFailures c + parse_failure (Parsed v)"
  "missingKeys (audit_record (audit_props v) c) = missingKeys c + missing_keys (Parsed v)"
  "missingSoldiers (audit_record (audit_props v) c) = missingSoldiers c + empty_primary (Parsed v)"
  "overCaps (audit_record (audit_props v) c) = overCaps c + over_caps (Parsed v)"
proof -
  have "filter (\<lambda>key. \<not> hasOwnProperty (audit_props v) key \<or> \<not> isArray (map_of (audit_props v) key))
          (map fst CAPS)
      = map fst (filter (\<lambda>kc. \<not> isArray (map_of (audit_props v) (fst kc))) CAPS)"
    by (auto simp: filter_map comp_def hasOwnProperty_def isArray_iff intro!: arg_cong [where f = "map fst"] filter_cong)
  then show "missingKeys (audit_record (audit_props v) c) = missingKeys c + missing_keys (Parsed v)"
    by (simp add: audit_record_def)
qed (simp_all add: audit_record_def)

lemma json_files_Cons:
  "json_files ((f, content) # entries) =
      (if endsWith f ''.json'' then content # json_files entries else json_files entries)"
  by (simp add: json_files_def)

lemma audit_loop_None_iff:
  "audit_loop entries c = None \<longleftrightarrow> Parsed JNull \<in> set (json_files entries)"
proof (induction entries arbitrary: c)
  case Nil
  show ?case by (simp add: json_files_def)
next
  case (Cons e entries)
  obtain f content where e: "e = (f, content)" by (cases e)
  note jf = json_files_Cons
  show ?case
  proof (cases "endsWith f ''.json''")
    case False
    then show ?thesis by (simp add: e jf Cons.IH)
  next
    case True
    show ?thesis
    proof (cases content)
      case Unparseable
      with True show ?thesis by (simp add: e jf Cons.IH)
    next
      case (Parsed v)
      with True show ?thesis by (cases v) (simp_all add: e jf Cons.IH)
    qed
  qed
qed

lemma audit_loop_Some:
  "audit_loop entries c = Some c' \<Longrightarrow>
     parseFailures c' = parseFailures c + sum_list (map parse_failure (json_files entries)) \<and>
     missingKeys c' = missingKeys c + sum_list (map missing_keys (json_files entries)) \<and>
     missingSoldiers c' = missingSoldiers c + sum_list (map empty_primary (json_files entries)) \<and>
     overCaps c' = overCaps c + sum_list (map over_caps (json_files entries))"
proof (induction entries arbitrary: c)
  case Nil
  then show ?case by (simp add: json_files_def)
next
  case (Cons e entries)
  obtain f content where e: "e = (f, content)" by (cases e)
  note jf = json_files_Cons
  show ?case
  proof (cases "endsWith f ''.json''")
    case False
    with Cons.prems have "audit_loop entries c = Some c'" by (simp add: e)
    from Cons.IH [OF this] False show ?thesis by (simp add: e jf)
  next
    case True
    show ?thesis
    proof (cases content)
      case Unparseable
      with True Cons.prems
      have "audit_loop entries (c\<lparr>parseFailures := parseFailures c + 1\<rparr>) = Some c'"
        by (simp add: e)
      from Cons.IH [OF this] True Unparseable show ?thesis by (simp add: e jf)
    next
      case (Parsed v)
      with True Cons.prems have nn: "v \<noteq> JNull"
        by (auto simp: e)
      with True Parsed Cons.prems
      have "audit_loop entries (audit_record (audit_props v) c) = Some c'"
        by (cases v) (simp_all add: e)
      from Cons.IH [OF this] True Parsed show ?thesis
        by (simp add: e jf audit_record_counts)
    qed
  qed
qed

lemma record_passes_iff:
  "c \<noteq> Parsed JNull \<Longrightarrow>
   record_passes c \<longleftrightarrow>
     parse_failure c = 0 \<and> missing_keys c = 0 \<and> empty_primary c = 0 \<and> over_caps c = 0"
proof (cases c)
  case Unparseable
  then show ?thesis by (simp add: record_passes_def)
next
  case (Parsed v)
  assume "c \<noteq> Parsed JNull"
  with Parsed have nn: "v \<noteq> JNull" by simp
  have arr: "\<not> isArray (map_of [] ''soldiers_day'')" by simp
  show ?thesis
  proof (cases v)
    case (JObj ps)
    have "1 \<le> length (arrayOrEmpty (map_of ps ''soldiers_day'')) \<longleftrightarrow>
        arrayOrEmpty (map_of ps ''soldiers_day'') \<noteq> []"
      by (cases "arrayOrEmpty (map_of ps ''soldiers_day'')") simp_all
    then show ?thesis
      by (auto simp: JObj Parsed record_passes_def list_all_iff filter_empty_conv not_less)
  qed (use nn in \<open>simp_all add: Parsed record_passes_def CAPS_def\<close>)
qed

lemma sum_list_zero_iff: "sum_list (map f xs) = (0::nat) \<longleftrightarrow> (\<forall>x\<in>set xs. f x = 0)"
  by (induction xs) auto

lemma null_does_not_pass: "\<not> record_passes (Parsed JNull)"
  by (simp add: record_passes_def)

lemma audit_exit_iff:
  "exit_status (snd (snd (audit_main (Some entries)))) = 0 \<longleftrightarrow>
     (\<forall>c\<in>set (json_files entries). record_passes c)"
proof (cases "audit_loop entries
    \<lparr>parseFailures = 0, missingKeys = 0, missingSoldiers = 0, overCaps = 0\<rparr>")
  case None
  then have "Parsed JNull \<in> set (json_files entries)"
    by (simp add: audit_loop_None_iff)
  with null_does_not_pass have "\<not> (\<forall>c\<in>set (json_files entries). record_passes c)"
    by blast
  with None show ?thesis by (simp add: audit_main_def)
next
  case (Some c')
  then have nn: "Parsed JNull \<notin> set (json_files entries)"
    using audit_loop_None_iff [of entries] by auto
  then have pass: "\<And>c. c \<in> set (json_files entries) \<Longrightarrow>
      record_passes c \<longleftrightarrow>
        parse_failure c = 0 \<and> missing_keys c = 0 \<and> empty_primary c = 0 \<and> over_caps c = 0"
    by (intro record_passes_iff) auto
  from audit_loop_Some [OF Some]
  have "violations c' = 0 \<longleftrightarrow> (\<forall>c\<in>set (json_files entries).
        parse_failure c = 0 \<and> missing_keys c = 0 \<and> empty_primary c = 0 \<and> over_caps c = 0)"
    by (auto simp: violations_def sum_list_zero_iff)
  with pass have "violations c' = 0 \<longleftrightarrow> (\<forall>c\<in>set (json_files entries). record_passes c)"
    by blast
  with Some show ?thesis by (simp add: audit_main_def)
qed

lemma audit_exit_0_or_1: "exit_status (snd (snd (audit_main (Some entries)))) \<in> {0, 1}"
  by (simp add: audit_main_def split: option.splits)

lemma audit_store: "fst (audit_main d) = d"
  by (simp add: audit_main_def split: option.splits)

lemma audit_report:
  assumes "Parsed JNull \<notin> set (json_files entries)"
  shows "\<exists>c. audit_main (Some entries) =
           (Some entries, Some c, Exit (if violations c = 0 then 0 else 1)) \<and>
         parseFailures c = sum_list (map parse_failure (json_files entries)) \<and>
         missingKeys c = sum_list (map missing_keys (json_files entries)) \<and>
         missingSoldiers c = sum_list (map empty_primary (json_files entries)) \<and>
         overCaps c = sum_list (map over_caps (json_files entries))"
proof -
  from assms obtain c where
    c: "audit_loop entries \<lparr>parseFailures = 0, missingKeys = 0, missingSoldiers = 0, overCaps = 0\<rparr>
          = Some c"
    using audit_loop_None_iff [of entries] by fastforce
  from audit_loop_Some [OF c] c show ?thesis
    by (auto simp: audit_main_def)
qed

text \<open>
  Claim C7 says that the audit ends with status 0 or 1 and reports its counts. Without a
  data directory it ends with status 2; and on a file that holds \<^verbatim>\<open>null\<close> it is ended by a
  TypeError before it reports anything.
\<close>

theorem audit_exit_codes_counterexample:
  "audit_main None = (None, None, Exit 2) \<and>
   exit_status (snd (snd (audit_main None))) = 2 \<and>
   audit_main (Some [(''1775-07-04.json'', Parsed JNull)])
     = (Some [(''1775-07-04.json'', Parsed JNull)], None, Uncaught)"
  by code_simp

text \<open>
  Claim C7, amended. The audit never changes the store. Without a data directory it ends
  with status 2. With one, its status is 0 if every file whose name ends in \<^verbatim>\<open>.json\<close> meets
  the four conditions, and 1 otherwise; and when no such file holds \<^verbatim>\<open>null\<close>, it reports
  the four counts: unparseable files, required keys that are missing or not arrays (one per
  key), files with an empty primary category, and categories over their cap (one per
  category).
\<close>

theorem audit_checks:
  "fst (audit_main d) = d \<and>
   audit_main None = (None, None, Exit 2) \<and>
   (exit_status (snd (snd (audit_main (Some entries)))) = 0 \<longleftrightarrow>
      (\<forall>c\<in>set (json_files entries). record_passes c)) \<and>
   exit_status (snd (snd (audit_main (Some entries)))) \<in> {0, 1} \<and>
   (Parsed JNull \<notin> set (json_files entries) \<longrightarrow>
      (\<exists>c. audit_main (Some entries) =
              (Some entries, Some c, Exit (if violations c = 0 then 0 else 1)) \<and>
           parseFailures c = sum_list (map parse_failure (json_files entries)) \<and>
           missingKeys c = sum_list (map missing_keys (json_files entries)) \<and>
           missingSoldiers c = sum_list (map empty_primary (json_files entries)) \<and>
           overCaps c = sum_list (map over_caps (json_files entries))))"
proof (intro conjI impI)
  show "fst (audit_main d) = d" by (rule audit_store)
  show "audit_main None = (None, None, Exit 2)" by (simp add: audit_main_def)
  show "exit_status (snd (snd (audit_main (Some entries)))) = 0 \<longleftrightarrow>
      (\<forall>c\<in>set (json_files entries). record_passes c)"
    by (rule audit_exit_iff)
  show "exit_status (snd (snd (audit_main (Some entries)))) \<in> {0, 1}"
    by (rule audit_exit_0_or_1)
next
  assume "Parsed JNull \<notin> set (json_files entries)"
  then show "\<exists>c. audit_main (Some entries) =
              (Some entries, Some c, Exit (if violations c = 0 then 0 else 1)) \<and>
           parseFailures c = sum_list (map parse_failure (json_files entries)) \<and>
           missingKeys c = sum_list (map missing_keys (json_files entries)) \<and>
           missingSoldiers c = sum_list (map empty_primary (json_files entries)) \<and>
           overCaps c = sum_list (map over_caps (json_files entries))"
    by (rule audit_report)
qed

text \<open>
  A directory with a complete record, an empty one, an unparseable file, a record over a
  cap, a record as the scaffold writes it, and a file that is not a record.
\<close>

theorem audit_checks_witness:
  "Parsed JNull \<notin> set (json_files audit_example) \<and>
   audit_main (Some audit_example) =
     (Some audit_example,
      Some \<lparr>parseFailures = 1, missingKeys = 4, missingSoldiers = 3, overCaps = 1\<rparr>,
      Exit 1) \<and>
   \<not> (\<forall>c\<in>set (json_files audit_example). record_passes c)"
proof -
  have h: "Parsed JNull \<notin> set (json_files audit_example)" by code_simp
  note checks = audit_checks [of "Some audit_example" audit_example]
  from checks have report: "Parsed JNull \<notin> set (json_files audit_example) \<longrightarrow>
      (\<exists>c. audit_main (Some audit_example) =
              (Some audit_example, Some c, Exit (if violations c = 0 then 0 else 1)) \<and>
           parseFailures c = sum_list (map parse_failure (json_files audit_example)) \<and>
           missingKeys c = sum_list (map missing_keys (json_files audit_example)) \<and>
           missingSoldiers c = sum_list (map empty_primary (json_files audit_example)) \<and>
           overCaps c = sum_list (map over_caps (json_files audit_example)))"
    by (elim conjE)
  from checks have status: "exit_status (snd (snd (audit_main (Some audit_example)))) = 0 \<longleftrightarrow>
      (\<forall>c\<in>set (json_files audit_example). record_passes c)"
    by (elim conjE)
  have sums: "sum_list (map parse_failure (json_files audit_example)) = 1"
    "sum_list (map missing_keys (json_files audit_example)) = 4"
    "sum_list (map empty_primary (json_files audit_example)) = 3"
    "sum_list (map over_caps (json_files audit_example)) = 1"
    by code_simp+
  from report [rule_format, OF h] obtain c where
    m: "audit_main (Some audit_example) =
          (Some audit_example, Some c, Exit (if violations c = 0 then 0 else 1))"
    and c: "parseFailures c = 1" "missingKeys c = 4" "missingSoldiers c = 3" "overCaps c = 1"
    unfolding sums by (elim exE conjE)
  from c have v: "violations c \<noteq> 0" by (simp add: violations_def)
  from c have eq: "c = \<lparr>parseFailures = 1, missingKeys = 4, missingSoldiers = 3, overCaps = 1\<rparr>"
    by (cases c) simp
  have e: "audit_main (Some audit_example) =
     (Some audit_example,
      Some \<lparr>parseFailures = 1, missingKeys = 4, missingSoldiers = 3, overCaps = 1\<rparr>,
      Exit 1)"
    using m v unfolding eq by simp
  then have "exit_status (snd (snd (audit_main (Some audit_example)))) \<noteq> 0" by simp
  with status have "\<not> (\<forall>c\<in>set (json_files audit_example). record_passes c)" by simp
  with h e show ?thesis by (intro conjI)
qed

section \<open>Properties of the scaffold\<close>

lemma scaffold_loop_keeps:
  "map_of entries name = Some x \<Longrightarrow> map_of (fst (scaffold_loop ds entries c s)) name = Some x"
  by (induction ds arbitrary: entries c s) auto

lemma map_of_append_new:
  "map_of entries name = None \<Longrightarrow> map_of (entries @ [(name, v)]) name = Some v"
  by (induction entries) auto

lemma map_of_append_other:
  "name' \<noteq> name \<Longrightarrow> map_of (entries @ [(name, v)]) name' = map_of entries name'"
  by (induction entries) auto

lemma scaffold_loop_creates:
  "dt \<in> set ds \<Longrightarrow> map_of entries (toIso dt @ ''.json'') = None \<Longrightarrow>
   map_of (fst (scaffold_loop ds entries c s)) (toIso dt @ ''.json'')
     = Some (Parsed (emptyDay (toIso dt)))"
proof (induction ds arbitrary: entries c s)
  case Nil
  then show ?case by simp
next
  case (Cons d0 ds)
  show ?case
  proof (cases "map_of entries (toIso d0 @ ''.json'') = None")
    case False
    with Cons.prems have "dt \<in> set ds" by auto
    with False Cons.IH [OF _ Cons.prems(2)] show ?thesis by simp
  next
    case True
    let ?entries = "entries @ [(toIso d0 @ ''.json'', Parsed (emptyDay (toIso d0)))]"
    show ?thesis
    proof (cases "toIso dt = toIso d0")
      case same: True
      from map_of_append_new [OF True]
      have "map_of ?entries (toIso dt @ ''.json'') = Some (Parsed (emptyDay (toIso dt)))"
        by (simp add: same)
      from scaffold_loop_keeps [OF this] True show ?thesis by simp
    next
      case False
      with Cons.prems have in_rest: "dt \<in> set ds" by auto
      from False Cons.prems(2) have "map_of ?entries (toIso dt @ ''.json'') = None"
        by (simp add: map_of_append_other)
      from Cons.IH [OF in_rest this] True show ?thesis by simp
    qed
  qed
qed

lemma scaffold_loop_present:
  "dt \<in> set ds \<Longrightarrow> map_of (fst (scaffold_loop ds entries c s)) (toIso dt @ ''.json'') \<noteq> None"
proof (cases "map_of entries (toIso dt @ ''.json'')")
  case None
  assume "dt \<in> set ds"
  from scaffold_loop_creates [OF this None] show ?thesis by simp
next
  case (Some x)
  from scaffold_loop_keeps [OF Some] show ?thesis by simp
qed

lemma scaffold_loop_all_present:
  "\<forall>dt\<in>set ds. map_of entries (toIso dt @ ''.json'') \<noteq> None \<Longrightarrow>
   scaffold_loop ds entries c s = (entries, c, s + length ds)"
  by (induction ds arbitrary: s) auto

lemma fst_scaffold_main:
  "fst (scaffold_main d) =
     Some (fst (scaffold_loop project_days (case d of None \<Rightarrow> [] | Some entries \<Rightarrow> entries) 0 0))"
  by (simp add: scaffold_main_def split: prod.splits)

lemma scaffold_main_again:
  "fst (scaffold_main (fst (scaffold_main d))) = fst (scaffold_main d)"
proof -
  let ?e0 = "case d of None \<Rightarrow> [] | Some entries \<Rightarrow> entries"
  let ?e1 = "fst (scaffold_loop project_days ?e0 0 0)"
  have "\<forall>dt\<in>set project_days. map_of ?e1 (toIso dt @ ''.json'') \<noteq> None"
    using scaffold_loop_present by blast
  from scaffold_loop_all_present [OF this]
  have "fst (scaffold_loop project_days ?e1 0 0) = ?e1" by simp
  then show ?thesis
    by (simp add: fst_scaffold_main)
qed

lemma project_days_eq: "project_days = [-71038..-70672]"
  by code_simp

lemma project_days_first: "project_days = (-71038) # [-71037..-70672]"
  unfolding project_days_eq by (simp add: upto_rec1)

lemma toIso_first: "toIso (-71038) = ''1775-07-04''"
  by code_simp

lemma toIso_last: "toIso (-70672) = ''1776-07-04''"
  by code_simp

text \<open>
  Claim C8 says that the scaffold writes a record with the four current categories empty.
  The record it writes has the date and the three legacy categories; none of the four current
  category fields is there, so the audit counts four missing keys for it. The first file of
  the range, written into a store without a data directory, is such a record.
\<close>

theorem scaffold_writes_legacy_shape:
  "own_props (emptyDay isoDate) =
     Some [(''date'', JStr isoDate), (''continental_congress'', JArr []),
           (''battles'', JArr []), (''letters_and_deeds'', JArr [])] \<and>
   \<not> isArray (map_of (the (own_props (emptyDay isoDate))) ''soldiers_day'') \<and>
   \<not> isArray (map_of (the (own_props (emptyDay isoDate))) ''men_of_command'') \<and>
   \<not> isArray (map_of (the (own_props (emptyDay isoDate))) ''continental_congress_committees'') \<and>
   \<not> isArray (map_of (the (own_props (emptyDay isoDate))) ''voices_beyond_the_line'') \<and>
   \<not> record_passes (Parsed (emptyDay isoDate)) \<and>
   missing_keys (Parsed (emptyDay isoDate)) = 4 \<and>
   map_of (the (fst (scaffold_main None))) ''1775-07-04.json''
     = Some (Parsed (emptyDay ''1775-07-04''))"
proof -
  have "map_of (fst (scaffold_loop project_days [] 0 0)) (toIso (-71038) @ ''.json'')
      = Some (Parsed (emptyDay (toIso (-71038))))"
    by (rule scaffold_loop_creates) (simp_all add: project_days_first)
  then have "map_of (the (fst (scaffold_main None))) ''1775-07-04.json''
     = Some (Parsed (emptyDay ''1775-07-04''))"
    by (simp add: fst_scaffold_main toIso_first)
  then show ?thesis
    by (simp add: emptyDay_def record_passes_def CAPS_def)
qed

text \<open>
  What holds of the scaffold: an existing file is left as it is, every day of the range has
  a file afterwards, a day without a file gets the record of \<^verbatim>\<open>emptyDay\<close>, a second run
  changes nothing, and the range is the 367 days from the project start to the project end.
\<close>

theorem scaffold_additive:
  "(map_of entries name = Some x \<longrightarrow>
      map_of (the (fst (scaffold_main (Some entries)))) name = Some x) \<and>
   (dt \<in> set project_days \<longrightarrow>
      map_of (the (fst (scaffold_main d))) (toIso dt @ ''.json'') \<noteq> None) \<and>
   (dt \<in> set project_days \<and> map_of entries (toIso dt @ ''.json'') = None \<longrightarrow>
      map_of (the (fst (scaffold_main (Some entries)))) (toIso dt @ ''.json'')
        = Some (Parsed (emptyDay (toIso dt)))) \<and>
   fst (scaffold_main (fst (scaffold_main d))) = fst (scaffold_main d) \<and>
   length project_days = 367 \<and>
   toIso (hd project_days) = PROJECT_START \<and> toIso (last project_days) = PROJECT_END"
proof (intro conjI impI)
  assume "map_of entries name = Some x"
  from scaffold_loop_keeps [OF this]
  show "map_of (the (fst (scaffold_main (Some entries)))) name = Some x"
    by (simp add: fst_scaffold_main)
next
  assume "dt \<in> set project_days"
  from scaffold_loop_present [OF this]
  show "map_of (the (fst (scaffold_main d))) (toIso dt @ ''.json'') \<noteq> None"
    by (simp add: fst_scaffold_main)
next
  assume "dt \<in> set project_days \<and> map_of entries (toIso dt @ ''.json'') = None"
  then have "map_of (fst (scaffold_loop project_days entries 0 0)) (toIso dt @ ''.json'')
     = Some (Parsed (emptyDay (toIso dt)))"
    by (intro scaffold_loop_creates) simp_all
  then show "map_of (the (fst (scaffold_main (Some entries)))) (toIso dt @ ''.json'')
        = Some (Parsed (emptyDay (toIso dt)))"
    by (simp add: fst_scaffold_main)
next
  show "fst (scaffold_main (fst (scaffold_main d))) = fst (scaffold_main d)"
    by (rule scaffold_main_again)
  show "length project_days = 367"
    by (simp only: project_days_eq length_upto)
  show "toIso (hd project_days) = PROJECT_START"
    by (simp add: project_days_first toIso_first PROJECT_START_def)
  have "[-71038..-70672] = [-71038..-70672 - 1] @ [-70672]"
    by (rule upto_rec2) simp
  then have "last project_days = -70672"
    unfolding project_days_eq by (simp only: last_snoc)
  then show "toIso (last project_days) = PROJECT_END"
    by (simp add: toIso_last PROJECT_END_def)
qed

text \<open>
  A store that has a record for the second day only.
\<close>

theorem scaffold_additive_witness:
  "(-71038) \<in> set project_days \<and>
   map_of [(''1775-07-05.json'', Parsed promoted_record)] (toIso (-71038) @ ''.json'') = None \<and>
   map_of (the (fst (scaffold_main (Some [(''1775-07-05.json'', Parsed promoted_record)]))))
     ''1775-07-04.json'' = Some (Parsed (emptyDay ''1775-07-04'')) \<and>
   map_of (the (fst (scaffold_main (Some [(''1775-07-05.json'', Parsed promoted_record)]))))
     ''1775-07-05.json'' = Some (Parsed promoted_record)"
proof -
  let ?entries = "[(''1775-07-05.json'', Parsed promoted_record)]"
  have h1: "(-71038) \<in> set project_days" by (simp add: project_days_first)
  have h2: "map_of ?entries (toIso (-71038) @ ''.json'') = None"
    by (simp add: toIso_first)
  have h3: "map_of ?entries ''1775-07-05.json'' = Some (Parsed promoted_record)" by simp
  from scaffold_additive [of ?entries "''1775-07-05.json''" "Parsed promoted_record" "-71038"] h1 h2 h3
  have "map_of (the (fst (scaffold_main (Some ?entries)))) (toIso (-71038) @ ''.json'')
        = Some (Parsed (emptyDay (toIso (-71038))))"
    and "map_of (the (fst (scaffold_main (Some ?entries)))) ''1775-07-05.json''
        = Some (Parsed promoted_record)"
    by blast+
  with h1 h2 show ?thesis by (simp add: toIso_first)
qed

end
